theory Spec2Isabelle
  imports Complex_Main
begin

section \<open>Smart rockets: a shallow embedding of main.py\<close>

text \<open>
  The program keeps a population of rockets, moves every living rocket once per tick,
  kills those that leave the window or hit an obstacle, scores every rocket by its
  distance to a goal, and breeds a new population when nobody is left alive.

  Conventions of the embedding:
  \<^item> Python's \<open>float\<close> and \<open>int\<close> coordinates are both read as \<^typ>\<open>real\<close>: arithmetic is
    exact, \<open>math.cos\<close>, \<open>math.sin\<close> and \<open>math.hypot\<close> are the real functions. The
    program rounds the result of every float operation; a value computed here is the
    exact value that the program approximates.
  \<^item> Every exception the code can raise is a value of \<open>error\<close>; a function that may raise
    returns \<open>error + 'a\<close>.
  \<^item> Objects are mutated in place in the source; here every method returns the changed
    value. A rocket object is identified by its \<open>id\<close> field (\<open>rid\<close>), which the
    constructor takes from a process-wide counter.
  \<^item> The random module and the id counter are process-wide state: the record
    \<open>globals\<close> is passed through every function that draws or constructs.
\<close>

subsection \<open>Data\<close>

datatype error = ZeroDivisionError | IndexError | ValueError

text \<open>\<open>Point = namedtuple('Point', 'x y')\<close>\<close>

datatype Point = Point (p_x: real) (p_y: real)

text \<open>A \<open>pygame.Rect\<close>: left, top, width, height.\<close>

datatype Rect = Rect (rect_left: int) (rect_top: int) (width: int) (height: int)

record Rocket =
  genome :: "int list"
  fitness :: real
  rid :: nat
  alive :: bool
  angle :: int
  pos :: Point

record Simulation =
  win_size :: Rect
  rockets :: "Rocket list"
  index :: nat
  obstacles :: "Rect list"
  generation :: nat
  best_fitness :: int
  fps :: int
  population :: int
  start :: Point
  goal :: Point

text \<open>The content of \<open>config.json\<close>, as \<open>restart\<close> reads it.\<close>

record config =
  cnf_population :: int
  cnf_obstacles :: "Rect list"
  cnf_start_pos :: "int \<times> int"
  cnf_goal :: "int \<times> int"

text \<open>
  Process-wide state: the class attribute \<open>Rocket._id = count(0)\<close>, the generator of
  the random module (an infinite sequence of raw draws and the number already consumed)
  and what \<open>print\<close> has written.
\<close>

record globals =
  next_id :: nat
  rnd :: "nat \<Rightarrow> nat"
  rnd_pos :: nat
  stdout :: "string list"

subsection \<open>Library functions\<close>

text \<open>
  The random module. Each call consumes one raw draw. \<open>random.uniform(a, b)\<close> is
  \<open>a + (b - a) * random()\<close> where \<open>random()\<close> is a multiple of \<open>2\<^sup>-\<^sup>5\<^sup>3\<close> in \<open>[0, 1)\<close>;
  \<open>random.randint(a, b)\<close> (only called with \<open>a \<le> b\<close>) lies in \<open>[a, b]\<close>;
  \<open>random.choice\<close> raises \<open>IndexError\<close> on an empty sequence.
\<close>

definition next_draw :: "globals \<Rightarrow> nat \<times> globals" where
  "next_draw g = (rnd g (rnd_pos g), g\<lparr>rnd_pos := Suc (rnd_pos g)\<rparr>)"

definition uniform :: "real \<Rightarrow> real \<Rightarrow> globals \<Rightarrow> real \<times> globals" where
  "uniform a b g =
     (case next_draw g of (n, g') \<Rightarrow> (a + (b - a) * (real (n mod 2 ^ 53) / 2 ^ 53), g'))"

definition randint :: "int \<Rightarrow> int \<Rightarrow> globals \<Rightarrow> int \<times> globals" where
  "randint a b g =
     (case next_draw g of (n, g') \<Rightarrow> (a + int (n mod nat (b - a + 1)), g'))"

definition choice :: "'a list \<Rightarrow> globals \<Rightarrow> error + ('a \<times> globals)" where
  "choice xs g =
     (if xs = [] then Inl IndexError
      else case next_draw g of (n, g') \<Rightarrow> Inr (xs ! (n mod length xs), g'))"

text \<open>\<open>math.radians\<close>, \<open>math.hypot\<close>.\<close>

definition radians :: "real \<Rightarrow> real" where
  "radians d = d * pi / 180"

definition hypot :: "real \<Rightarrow> real \<Rightarrow> real" where
  "hypot a b = sqrt (a\<^sup>2 + b\<^sup>2)"

text \<open>\<open>int(x)\<close> of a float truncates towards zero.\<close>

definition py_int :: "real \<Rightarrow> int" where
  "py_int x = (if 0 \<le> x then \<lfloor>x\<rfloor> else \<lceil>x\<rceil>)"

text \<open>\<open>round(x)\<close> of a float, with no second argument, rounds half to even.\<close>

definition py_round :: "real \<Rightarrow> int" where
  "py_round x =
     (let f = \<lfloor>x\<rfloor>; d = x - of_int f in
      if d < 1 / 2 then f else if 1 / 2 < d then f + 1 else if even f then f else f + 1)"

text \<open>
  \<open>Rect.collidepoint\<close>, as pygame documents it: a point on the right or bottom edge is
  not inside the rectangle.
\<close>

definition collidepoint :: "Rect \<Rightarrow> Point \<Rightarrow> bool" where
  "collidepoint r p \<longleftrightarrow>
     of_int (rect_left r) \<le> p_x p \<and> p_x p < of_int (rect_left r + width r) \<and>
     of_int (rect_top r) \<le> p_y p \<and> p_y p < of_int (rect_top r + height r)"

text \<open>A \<open>for\<close> loop whose body may raise: the first error ends it.\<close>

fun map_err :: "('a \<Rightarrow> error + 'b) \<Rightarrow> 'a list \<Rightarrow> error + 'b list" where
  "map_err f [] = Inr []"
| "map_err f (x # xs) =
     (case f x of
        Inl e \<Rightarrow> Inl e
      | Inr y \<Rightarrow> (case map_err f xs of Inl e \<Rightarrow> Inl e | Inr ys \<Rightarrow> Inr (y # ys)))"

subsection \<open>class Rocket\<close>

text \<open>\<open>[random.randint(a, b) for _ in range(k)]\<close>\<close>

fun randints :: "nat \<Rightarrow> int \<Rightarrow> int \<Rightarrow> globals \<Rightarrow> int list \<times> globals" where
  "randints 0 a b g = ([], g)"
| "randints (Suc k) a b g =
     (case randint a b g of (v, g1) \<Rightarrow>
      case randints k a b g1 of (vs, g2) \<Rightarrow> (v # vs, g2))"

text \<open>\<open>Rocket.__init__\<close>\<close>

definition Rocket_init :: "globals \<Rightarrow> Rocket \<times> globals" where
  "Rocket_init g =
     (case randints 300 (- 7) 7 g of (gs, g1) \<Rightarrow>
        (\<lparr>genome = gs, fitness = - 1, rid = next_id g1, alive = True, angle = 0,
          pos = Point 0 0\<rparr>,
         g1\<lparr>next_id := Suc (next_id g1)\<rparr>))"

text \<open>\<open>Rocket.apply_force\<close>\<close>

definition apply_force :: "real \<Rightarrow> Rocket \<Rightarrow> Rocket" where
  "apply_force force r =
     (let rad = radians (of_int (angle r));
          x = p_x (pos r) + cos rad * force;
          y = p_y (pos r) + sin rad * force
      in r\<lparr>pos := Point x y\<rparr>)"

subsection \<open>class Simulation\<close>

text \<open>\<open>Simulation._distance\<close>\<close>

definition distance :: "Point \<Rightarrow> Point \<Rightarrow> real" where
  "distance p1 p2 = hypot (p_x p1 - p_x p2) (p_y p1 - p_y p2)"

text \<open>\<open>Simulation._reset_rockets\<close>\<close>

definition reset_rockets :: "Simulation \<Rightarrow> Rocket list \<Rightarrow> Rocket list" where
  "reset_rockets s rs =
     map (\<lambda>rocket. rocket\<lparr>pos := Point (p_x (start s)) (p_y (start s) + 3 - 50),
                           angle := 270, alive := True\<rparr>) rs"

text \<open>
  \<open>Simulation._check_collision\<close>. The body of the outer loop, for one rocket: the two
  edge tests, then the loop over the obstacles.
\<close>

definition check_collision_rocket :: "Simulation \<Rightarrow> Rocket \<Rightarrow> Rocket" where
  "check_collision_rocket s rocket =
     (let r1 =
        (if p_x (pos rocket) < 0 \<or> p_x (pos rocket) > of_int (width (win_size s))
           then rocket\<lparr>alive := False\<rparr>
         else if p_y (pos rocket) < 0 \<or> p_y (pos rocket) > of_int (height (win_size s))
           then rocket\<lparr>alive := False\<rparr>
         else rocket)
      in foldl (\<lambda>r obs. if collidepoint obs (pos r) then r\<lparr>alive := False\<rparr> else r)
           r1 (obstacles s))"

definition check_collision :: "Simulation \<Rightarrow> Simulation" where
  "check_collision s = s\<lparr>rockets := map (check_collision_rocket s) (rockets s)\<rparr>"

text \<open>
  \<open>Simulation._fitness\<close>. The division \<open>d / total_distance\<close> of two floats raises
  \<open>ZeroDivisionError\<close> when the divisor is zero. The expression is evaluated exactly
  here; the program rounds each of its three operations, so that there two distances
  that differ by little can give the same fitness. The order of two fitness values is
  therefore stated below as non-strict.
\<close>

definition fitness_rocket :: "Simulation \<Rightarrow> real \<Rightarrow> Rocket \<Rightarrow> error + Rocket" where
  "fitness_rocket s total_distance rocket =
     (let d = distance (pos rocket) (goal s) in
      if total_distance = 0 then Inl ZeroDivisionError
      else Inr (rocket\<lparr>fitness := 100 - (d / total_distance) * 100\<rparr>))"

definition fitness_pass :: "Simulation \<Rightarrow> Rocket list \<Rightarrow> error + Rocket list" where
  "fitness_pass s rs =
     (let total_distance = distance (start s) (goal s) in
      map_err (fitness_rocket s total_distance) rs)"

text \<open>
  \<open>Simulation.update\<close>. The body of the loop, for one rocket:
  \<open>genome[index % len(genome)]\<close> raises \<open>ZeroDivisionError\<close> on an empty genome.
\<close>

definition update_rocket :: "nat \<Rightarrow> Rocket \<Rightarrow> error + Rocket" where
  "update_rocket i rocket =
     (if alive rocket then
        (let r1 = apply_force 3 rocket in
         if length (genome r1) = 0 then Inl ZeroDivisionError
         else Inr (r1\<lparr>angle := angle r1 + genome r1 ! (i mod length (genome r1))\<rparr>))
      else Inr rocket)"

definition update :: "Simulation \<Rightarrow> error + Simulation" where
  "update s =
     (case map_err (update_rocket (index s)) (rockets s) of
        Inl e \<Rightarrow> Inl e
      | Inr rs \<Rightarrow>
          (let s1 = s\<lparr>rockets := rs, index := index s + 1\<rparr>;
               s2 = check_collision s1
           in case fitness_pass s2 (rockets s2) of
                Inl e \<Rightarrow> Inl e
              | Inr rs' \<Rightarrow> Inr (s2\<lparr>rockets := rs'\<rparr>)))"

text \<open>\<open>Simulation.alive_rockets\<close>, \<open>Simulation.found_solution\<close>\<close>

definition alive_rockets :: "Simulation \<Rightarrow> nat" where
  "alive_rockets s = length (filter alive (rockets s))"

text \<open>
  \<open>any\<close> of a list of rocket objects: every object is truthy, so the result is whether
  the list is non-empty.
\<close>

definition found_solution :: "Simulation \<Rightarrow> bool" where
  "found_solution s \<longleftrightarrow> filter (\<lambda>r. distance (pos r) (goal s) < 10) (rockets s) \<noteq> []"

text \<open>
  \<open>Simulation._selection\<close>. \<open>sorted(..., reverse=True)\<close> is a stable sort into
  descending order of the key: \<open>sort_key\<close> on the negated key. The function extends
  its local sorted list in the branch taken with probability 0.1 and returns
  \<open>result\<close>, the slice taken before; \<open>selection_locals\<close> gives both.
\<close>

definition selection_locals ::
  "Rocket list \<Rightarrow> globals \<Rightarrow> Rocket list \<times> Rocket list \<times> globals" where
  "selection_locals rs g =
     (let rockets1 = sort_key (\<lambda>r. - fitness r) rs;
          result = take (nat (py_int (0.2 * real (length rockets1)))) rockets1
      in case uniform 0.0 1.0 g of (u, g1) \<Rightarrow>
           if u \<le> 0.1 then
             (result, rockets1 @ drop (length rockets1 - 2) rockets1,
              g1\<lparr>stdout := stdout g1 @
                 [''Selection(): Adding the two least fittest rockets.'']\<rparr>)
           else (result, rockets1, g1))"

definition selection :: "Rocket list \<Rightarrow> globals \<Rightarrow> Rocket list \<times> globals" where
  "selection rs g = (case selection_locals rs g of (result, rockets1, g') \<Rightarrow> (result, g'))"

text \<open>
  \<open>Simulation._crossover\<close>. The loop runs \<open>int((population - len(rockets)) / 2)\<close>
  times; the parents are drawn from the list as it was given, the offspring is appended
  after the loop. \<open>r != parent1\<close> compares object identities.
\<close>

fun crossover_loop ::
  "nat \<Rightarrow> Rocket list \<Rightarrow> Rocket list \<Rightarrow> globals \<Rightarrow> error + (Rocket list \<times> globals)" where
  "crossover_loop 0 rs offspring g = Inr (offspring, g)"
| "crossover_loop (Suc k) rs offspring g =
     (case choice rs g of
        Inl e \<Rightarrow> Inl e
      | Inr (parent1, g1) \<Rightarrow>
          (case choice (filter (\<lambda>r. rid r \<noteq> rid parent1) rs) g1 of
             Inl e \<Rightarrow> Inl e
           | Inr (parent2, g2) \<Rightarrow>
               (case Rocket_init g2 of (child1, g3) \<Rightarrow>
                case Rocket_init g3 of (child2, g4) \<Rightarrow>
                case randint 0 (int (length (genome parent1))) g4 of (split, g5) \<Rightarrow>
                  crossover_loop k rs
                    (offspring @
                     [child1\<lparr>genome := take (nat split) (genome parent1) @
                                         drop (nat split) (genome parent2)\<rparr>,
                      child2\<lparr>genome := take (nat split) (genome parent2) @
                                         drop (nat split) (genome parent1)\<rparr>])
                    g5)))"

definition crossover ::
  "Simulation \<Rightarrow> Rocket list \<Rightarrow> globals \<Rightarrow> error + (Rocket list \<times> globals)" where
  "crossover s rs g =
     (case crossover_loop
             (nat (py_int (of_int (population s - int (length rs)) / 2))) rs [] g of
        Inl e \<Rightarrow> Inl e
      | Inr (offspring, g') \<Rightarrow> Inr (rs @ offspring, g'))"

text \<open>\<open>Simulation._mutation\<close>: the inner loop over one genome, the outer over the rockets.\<close>

fun mutation_genome :: "int list \<Rightarrow> globals \<Rightarrow> int list \<times> globals" where
  "mutation_genome [] g = ([], g)"
| "mutation_genome (x # xs) g =
     (case uniform 0.0 1.0 g of (u, g1) \<Rightarrow>
        if u \<le> 0.1 then
          (case randint (- 7) 7 g1 of (v, g2) \<Rightarrow>
           case mutation_genome xs g2 of (ys, g3) \<Rightarrow> (v # ys, g3))
        else
          (case mutation_genome xs g1 of (ys, g3) \<Rightarrow> (x # ys, g3)))"

fun mutation :: "Rocket list \<Rightarrow> globals \<Rightarrow> Rocket list \<times> globals" where
  "mutation [] g = ([], g)"
| "mutation (rocket # rs) g =
     (case mutation_genome (genome rocket) g of (gs, g1) \<Rightarrow>
      case mutation rs g1 of (rs', g2) \<Rightarrow> (rocket\<lparr>genome := gs\<rparr> # rs', g2))"

text \<open>\<open>Simulation.next_gen\<close>\<close>

definition next_gen :: "Simulation \<Rightarrow> globals \<Rightarrow> error + (Simulation \<times> globals)" where
  "next_gen s g =
     (case selection (rockets s) g of (rs1, g1) \<Rightarrow>
       (case crossover s rs1 g1 of
          Inl e \<Rightarrow> Inl e
        | Inr (rs2, g2) \<Rightarrow>
            (case mutation rs2 g2 of (rs3, g3) \<Rightarrow>
               Inr (s\<lparr>rockets := reset_rockets s rs3, index := 0,
                       generation := generation s + 1\<rparr>, g3))))"

text \<open>
  \<open>Simulation.draw\<close>: what it does to the simulation, in \<open>_draw_overlay\<close>. \<open>max\<close> of
  an empty list raises \<open>ValueError\<close>. What is painted on the surface is not modelled.
\<close>

definition draw :: "Simulation \<Rightarrow> error + Simulation" where
  "draw s =
     (if rockets s = [] then Inl ValueError
      else let best = py_round (Max (set (map fitness (rockets s))))
           in Inr (s\<lparr>best_fitness := max (best_fitness s) best\<rparr>))"

text \<open>\<open>Simulation.restart\<close>, on the configuration that \<open>_load_config\<close> has read.\<close>

fun new_rockets :: "nat \<Rightarrow> globals \<Rightarrow> Rocket list \<times> globals" where
  "new_rockets 0 g = ([], g)"
| "new_rockets (Suc k) g =
     (case Rocket_init g of (r, g1) \<Rightarrow>
      case new_rockets k g1 of (rs, g2) \<Rightarrow> (r # rs, g2))"

definition restart :: "config \<Rightarrow> Simulation \<Rightarrow> globals \<Rightarrow> Simulation \<times> globals" where
  "restart cnf s g =
     (let s1 = s\<lparr>rockets := [], index := 0, obstacles := cnf_obstacles cnf,
                  generation := 1, best_fitness := 0, fps := 30,
                  population := cnf_population cnf,
                  start := Point (of_int (fst (cnf_start_pos cnf)))
                                 (of_int (snd (cnf_start_pos cnf))),
                  goal := Point (of_int (fst (cnf_goal cnf))) (of_int (snd (cnf_goal cnf)))\<rparr>
      in case new_rockets (nat (population s1)) g of (rs, g1) \<Rightarrow>
           (s1\<lparr>rockets := reset_rockets s1 rs\<rparr>, g1))"

subsection \<open>The main loop\<close>

text \<open>
  The events one iteration handles, and the calls it makes on the simulation after them.
  A mouse event carries the position that \<open>pygame.mouse.get_pos()\<close> returns.
\<close>

datatype key = K_q | K_a | K_z | K_r | K_other

datatype event = QUIT | KEYUP key | MOUSEBUTTONUP nat "int \<times> int" | OTHER

datatype call = NextGen | Update | Draw

definition handle_event ::
  "config \<Rightarrow> bool \<times> Simulation \<times> globals \<Rightarrow> event \<Rightarrow> bool \<times> Simulation \<times> globals" where
  "handle_event cnf st ev =
     (case st of (done, sim, g) \<Rightarrow>
        (case ev of
           QUIT \<Rightarrow> (True, sim, g)
         | KEYUP k \<Rightarrow>
             (if k = K_q then (True, sim, g)
              else if k = K_a \<and> fps sim < 300 then (done, sim\<lparr>fps := fps sim + 5\<rparr>, g)
              else if k = K_z \<and> fps sim > 5 then (done, sim\<lparr>fps := fps sim - 5\<rparr>, g)
              else if k = K_r then (case restart cnf sim g of (sim', g') \<Rightarrow> (done, sim', g'))
              else (done, sim, g))
         | MOUSEBUTTONUP button p \<Rightarrow>
             (if button = 3
              then (done, sim\<lparr>goal := Point (of_int (fst p)) (of_int (snd p))\<rparr>, g)
              else (done, sim, g))
         | OTHER \<Rightarrow> (done, sim, g)))"

text \<open>
  The two \<open>if\<close> statements that end the loop body. The result is the list of the
  methods called, in order, and the state they leave (or the exception raised).
\<close>

definition update_draw ::
  "Simulation \<Rightarrow> globals \<Rightarrow> call list \<times> (error + Simulation \<times> globals)" where
  "update_draw sim g =
     (if \<not> found_solution sim then
        (case update sim of
           Inl e \<Rightarrow> ([Update], Inl e)
         | Inr sim1 \<Rightarrow>
             (case draw sim1 of
                Inl e \<Rightarrow> ([Update, Draw], Inl e)
              | Inr sim2 \<Rightarrow> ([Update, Draw], Inr (sim2, g))))
      else ([], Inr (sim, g)))"

definition main_body ::
  "Simulation \<Rightarrow> globals \<Rightarrow> call list \<times> (error + Simulation \<times> globals)" where
  "main_body sim g =
     (if alive_rockets sim = 0 then
        (case next_gen sim g of
           Inl e \<Rightarrow> ([NextGen], Inl e)
         | Inr (sim1, g1) \<Rightarrow>
             (case update_draw sim1 g1 of (calls, res) \<Rightarrow> (NextGen # calls, res)))
      else update_draw sim g)"

text \<open>One iteration of \<open>while not done\<close>: the pending events, then the two tests.\<close>

definition main_iteration ::
  "config \<Rightarrow> event list \<Rightarrow> bool \<times> Simulation \<times> globals \<Rightarrow>
     call list \<times> (error + bool \<times> Simulation \<times> globals)" where
  "main_iteration cnf evs st =
     (case foldl (handle_event cnf) st evs of (done, sim, g) \<Rightarrow>
        (case main_body sim g of
           (calls, Inl e) \<Rightarrow> (calls, Inl e)
         | (calls, Inr (sim', g')) \<Rightarrow> (calls, Inr (done, sim', g'))))"

subsection \<open>Consecutive ticks, the step as the specification words it, concrete states\<close>

text \<open>\<open>n\<close> consecutive calls of \<open>update\<close>; an exception ends the run.\<close>

fun updates :: "nat \<Rightarrow> Simulation \<Rightarrow> error + Simulation" where
  "updates 0 s = Inr s"
| "updates (Suc n) s = (case update s of Inl e \<Rightarrow> Inl e | Inr s1 \<Rightarrow> updates n s1)"

text \<open>
  The step of an agent in the words of the specification (section 4.1): if alive,
  \<open>heading += headingDelta\<close>, then the position moves by \<open>force\<close> along the new
  heading. It is compared with \<open>update_rocket\<close> below.
\<close>

definition spec_step :: "int \<Rightarrow> real \<Rightarrow> Rocket \<Rightarrow> Rocket" where
  "spec_step headingDelta force r =
     (if alive r then
        (let heading = angle r + headingDelta in
         r\<lparr>angle := heading,
           pos := Point (p_x (pos r) + force * cos (radians (of_int heading)))
                        (p_y (pos r) + force * sin (radians (of_int heading)))\<rparr>)
      else r)"

text \<open>
  A rocket as \<open>_reset_rockets\<close> leaves it for the start point \<open>(300, 750)\<close>, with a
  constant genome, and the simulation of the end-to-end scenario of the specification
  (population 10, start \<open>(300, 750)\<close>, goal \<open>(300, 50)\<close>, no obstacles) in the 600 by 800
  window.
\<close>

definition example_rocket :: "int \<Rightarrow> nat \<Rightarrow> Rocket" where
  "example_rocket gene i =
     \<lparr>genome = replicate 300 gene, fitness = - 1, rid = i, alive = True, angle = 270,
      pos = Point 300 703\<rparr>"

definition example_sim :: Simulation where
  "example_sim =
     \<lparr>win_size = Rect 0 0 600 800, rockets = map (example_rocket 7) [0..<10], index = 0,
      obstacles = [], generation = 1, best_fitness = 0, fps = 30, population = 10,
      start = Point 300 750, goal = Point 300 50\<rparr>"

definition example_globals :: globals where
  "example_globals = \<lparr>next_id = 10, rnd = (\<lambda>i. 7 * i + 3), rnd_pos = 3000, stdout = []\<rparr>"

text \<open>
  A thin wall: the obstacle covers \<open>401 \<le> y < 403\<close>. The first rocket is just below
  it and flies upwards, the second is two pixels lower.
\<close>

definition wall_sim :: Simulation where
  "wall_sim =
     example_sim\<lparr>obstacles := [Rect 0 401 600 2],
       rockets := [(example_rocket 0 0)\<lparr>pos := Point 300 403\<rparr>,
                   (example_rocket 0 1)\<lparr>pos := Point 300 405\<rparr>]\<rparr>"

text \<open>Selection, then crossover: the first two calls of \<open>next_gen\<close>.\<close>

definition breeding ::
  "Simulation \<Rightarrow> Rocket list \<Rightarrow> globals \<Rightarrow> error + (Rocket list \<times> globals)" where
  "breeding s rs g = (case selection rs g of (rs1, g1) \<Rightarrow> crossover s rs1 g1)"

text \<open>
  The genome invariant of the specification (section 3): 300 genes, each in \<open>[-7, 7]\<close>.
\<close>

definition genome_ok :: "Rocket \<Rightarrow> bool" where
  "genome_ok r \<longleftrightarrow> length (genome r) = 300 \<and> list_all (\<lambda>v. - 7 \<le> v \<and> v \<le> 7) (genome r)"

text \<open>The example simulation with a configured population of \<open>n\<close> and \<open>m\<close> rockets.\<close>

definition sized_sim :: "int \<Rightarrow> nat \<Rightarrow> Simulation" where
  "sized_sim n m = example_sim\<lparr>population := n, rockets := map (example_rocket 7) [0..<m]\<rparr>"

text \<open>The example simulation with a population of five.\<close>

definition small_sim :: Simulation where
  "small_sim = example_sim\<lparr>population := 5, rockets := map (example_rocket 7) [0..<5]\<rparr>"

text \<open>
  A wall along the top edge with the goal inside it. Ten rockets that flew straight up
  from the start have, at tick 228, all entered the wall at \<open>(300, 19)\<close>: they are dead,
  and within distance 10 of the goal.
\<close>

definition solved_dead_sim :: Simulation where
  "solved_dead_sim =
     example_sim\<lparr>obstacles := [Rect 0 0 600 20], goal := Point 300 10, index := 228,
       rockets := map (\<lambda>i. (example_rocket 0 i)\<lparr>pos := Point 300 19, alive := False\<rparr>)
                    [0..<10]\<rparr>"

text \<open>
  The example simulation after the goal has been moved next to the rockets: all ten are
  alive, and within distance 10 of the goal.
\<close>

definition frozen_sim :: Simulation where
  "frozen_sim = example_sim\<lparr>goal := Point 300 700\<rparr>"

text \<open>The configuration of the end-to-end scenario.\<close>

definition example_config :: config where
  "example_config =
     \<lparr>cnf_population = 10, cnf_obstacles = [], cnf_start_pos = (300, 750),
      cnf_goal = (300, 50)\<rparr>"

text \<open>
  Ten rockets with fitness values that tie: the greatest value, 5, is held by the
  rockets 1, 3 and 7.
\<close>

definition tied_rockets :: "Rocket list" where
  "tied_rockets =
     map (\<lambda>(i, f). (example_rocket 0 i)\<lparr>fitness := f\<rparr>)
       [(0, 1), (1, 5), (2, 3), (3, 5), (4, 2), (5, 0), (6, 4), (7, 5), (8, 1), (9, 2)]"

text \<open>
  The states the program can be in when an iteration of the main loop begins:
  \<open>Simulation.__init__\<close> ends with \<open>restart\<close> (on whatever \<open>config.json\<close> holds, with
  the random generator and the id counter in any state), and every iteration that does
  not raise leads to the next.
\<close>

inductive reachable :: "Simulation \<times> globals \<Rightarrow> bool" where
  init: "reachable (restart cnf s g)"
| iteration:
    "reachable (sim, g) \<Longrightarrow>
     main_iteration cnf evs (done, sim, g) = (calls, Inr (done', sim', g')) \<Longrightarrow>
     reachable (sim', g')"

text \<open>
  The rockets are different objects, made before the id counter reached its present
  value: their ids are distinct and below the counter.
\<close>

definition ids_fresh :: "Rocket list \<Rightarrow> globals \<Rightarrow> bool" where
  "ids_fresh rs g \<longleftrightarrow> distinct (map rid rs) \<and> (\<forall>r\<in>set rs. rid r < next_id g)"

section \<open>Auxiliary facts\<close>

subsection \<open>Loops that may raise\<close>

lemma map_err_map:
  "(\<And>x. x \<in> set xs \<Longrightarrow> f x = Inr (h x)) \<Longrightarrow> map_err f xs = Inr (map h xs)"
  by (induction xs) simp_all

lemma map_err_Inr_length:
  "map_err f xs = Inr ys \<Longrightarrow> length ys = length xs"
  by (induction xs arbitrary: ys) (auto split: sum.splits)

lemma map_err_Inr_nth:
  "map_err f xs = Inr ys \<Longrightarrow> i < length xs \<Longrightarrow> f (xs ! i) = Inr (ys ! i)"
proof (induction xs arbitrary: ys i)
  case Nil
  then show ?case by simp
next
  case (Cons x xs)
  then show ?case
    by (cases i) (auto split: sum.splits)
qed

lemma map_err_total:
  "(\<And>x. x \<in> set xs \<Longrightarrow> \<exists>y. f x = Inr y) \<Longrightarrow> \<exists>ys. map_err f xs = Inr ys"
  by (induction xs) (fastforce split: sum.splits)+

lemma map_err_Inl:
  "xs \<noteq> [] \<Longrightarrow> (\<And>x. x \<in> set xs \<Longrightarrow> f x = Inl e) \<Longrightarrow> map_err f xs = Inl e"
  by (cases xs) auto

subsection \<open>Distance and the fitness pass\<close>

lemma distance_nonneg: "0 \<le> distance p q"
  by (simp add: distance_def hypot_def)

lemma distance_eq_0_iff: "distance p q = 0 \<longleftrightarrow> p = q"
  by (cases p; cases q) (simp add: distance_def hypot_def)

lemma hypot_0_left: "hypot 0 b = \<bar>b\<bar>"
  by (simp add: hypot_def)

lemma fitness_pass_ok:
  "start s \<noteq> goal s \<Longrightarrow>
   fitness_pass s rs =
     Inr (map (\<lambda>r. r\<lparr>fitness :=
            100 - (distance (pos r) (goal s) / distance (start s) (goal s)) * 100\<rparr>) rs)"
  unfolding fitness_pass_def Let_def
  by (rule map_err_map) (simp add: fitness_rocket_def distance_eq_0_iff)

lemma fitness_pass_zero:
  "start s = goal s \<Longrightarrow> rs \<noteq> [] \<Longrightarrow> fitness_pass s rs = Inl ZeroDivisionError"
  unfolding fitness_pass_def Let_def
  by (rule map_err_Inl) (simp_all add: fitness_rocket_def distance_eq_0_iff)

lemma fitness_pass_length:
  "fitness_pass s rs = Inr rs' \<Longrightarrow> length rs' = length rs"
  unfolding fitness_pass_def Let_def by (rule map_err_Inr_length)

subsection \<open>The collision pass\<close>

lemma kill_foldl:
  "foldl (\<lambda>r obs. if collidepoint obs (pos r) then r\<lparr>alive := False\<rparr> else r) r obss =
     r\<lparr>alive := alive r \<and> \<not> (\<exists>obs\<in>set obss. collidepoint obs (pos r))\<rparr>"
  by (induction obss arbitrary: r) auto

lemma check_collision_rocket_eq:
  "check_collision_rocket s r =
     r\<lparr>alive := alive r \<and>
        \<not> (p_x (pos r) < 0 \<or> p_x (pos r) > of_int (width (win_size s)) \<or>
           p_y (pos r) < 0 \<or> p_y (pos r) > of_int (height (win_size s)) \<or>
           (\<exists>obs\<in>set (obstacles s). collidepoint obs (pos r)))\<rparr>"
  by (auto simp: check_collision_rocket_def kill_foldl Let_def)

lemma check_collision_rocket_frame:
  "check_collision_rocket (s\<lparr>rockets := rs, index := k\<rparr>) = check_collision_rocket s"
  by (rule ext) (simp add: check_collision_rocket_eq)

subsection \<open>One tick\<close>

lemma update_Inr_fields:
  assumes "update s = Inr s'"
  shows "index s' = Suc (index s)" "start s' = start s" "goal s' = goal s"
    "obstacles s' = obstacles s" "win_size s' = win_size s" "generation s' = generation s"
    "population s' = population s" "length (rockets s') = length (rockets s)"
  using assms
  by (auto simp: update_def Let_def check_collision_def split: sum.splits
      dest!: map_err_Inr_length fitness_pass_length)

text \<open>What \<open>update\<close> leaves in place \<open>i\<close>: the moved rocket, checked and scored.\<close>

lemma update_Inr_rocket:
  assumes "update s = Inr s'" and "i < length (rockets s)"
  shows "\<exists>r1. update_rocket (index s) (rockets s ! i) = Inr r1 \<and>
           start s \<noteq> goal s \<and>
           rockets s' ! i = (check_collision_rocket s r1)
             \<lparr>fitness := 100 - (distance (pos r1) (goal s) / distance (start s) (goal s)) * 100\<rparr>"
proof -
  from assms(1) obtain rs rs' where
    rs: "map_err (update_rocket (index s)) (rockets s) = Inr rs" and
    rs': "fitness_pass (check_collision (s\<lparr>rockets := rs, index := index s + 1\<rparr>))
            (map (check_collision_rocket s) rs) = Inr rs'" and
    s': "rockets s' = rs'"
    by (auto simp: update_def Let_def check_collision_def check_collision_rocket_frame
        split: sum.splits)
  have len: "length rs = length (rockets s)"
    using rs by (rule map_err_Inr_length)
  have r1: "update_rocket (index s) (rockets s ! i) = Inr (rs ! i)"
    using rs assms(2) by (rule map_err_Inr_nth)
  let ?s2 = "check_collision (s\<lparr>rockets := rs, index := index s + 1\<rparr>)"
  have "fitness_rocket ?s2 (distance (start ?s2) (goal ?s2))
          (map (check_collision_rocket s) rs ! i) = Inr (rs' ! i)"
    using rs' assms(2) len unfolding fitness_pass_def Let_def
    by (intro map_err_Inr_nth) simp_all
  then show ?thesis
    using r1 s' assms(2) len
    by (auto simp: fitness_rocket_def Let_def check_collision_def check_collision_rocket_eq
        distance_eq_0_iff split: if_splits)
qed

lemma update_total:
  assumes "start s \<noteq> goal s"
    and "\<And>r. r \<in> set (rockets s) \<Longrightarrow> alive r \<Longrightarrow> genome r \<noteq> []"
  shows "\<exists>s'. update s = Inr s'"
proof -
  have "\<exists>rs. map_err (update_rocket (index s)) (rockets s) = Inr rs"
    by (rule map_err_total) (auto simp: update_rocket_def apply_force_def Let_def dest: assms(2))
  then obtain rs where rs: "map_err (update_rocket (index s)) (rockets s) = Inr rs" ..
  show ?thesis
    using assms(1)
    by (simp add: update_def rs Let_def fitness_pass_ok check_collision_def)
qed

lemma update_alive:
  assumes "update s = Inr s'" and "i < length (rockets s)" and "alive (rockets s ! i)"
  shows "angle (rockets s' ! i) =
           angle (rockets s ! i) +
           genome (rockets s ! i) ! (index s mod length (genome (rockets s ! i)))"
    and "pos (rockets s' ! i) =
           Point (p_x (pos (rockets s ! i)) + cos (radians (of_int (angle (rockets s ! i)))) * 3)
                 (p_y (pos (rockets s ! i)) + sin (radians (of_int (angle (rockets s ! i)))) * 3)"
  using update_Inr_rocket [OF assms(1,2)] assms(3)
  by (auto simp: update_rocket_def apply_force_def Let_def check_collision_rocket_eq
      split: if_splits)

lemma update_dead:
  assumes "update s = Inr s'" and "i < length (rockets s)" and "\<not> alive (rockets s ! i)"
  shows "pos (rockets s' ! i) = pos (rockets s ! i) \<and>
         angle (rockets s' ! i) = angle (rockets s ! i) \<and>
         \<not> alive (rockets s' ! i)"
  using update_Inr_rocket [OF assms(1,2)] assms(3)
  by (auto simp: update_rocket_def check_collision_rocket_eq)

lemma update_genome:
  assumes "update s = Inr s'" and "i < length (rockets s)"
  shows "genome (rockets s' ! i) = genome (rockets s ! i)"
  using update_Inr_rocket [OF assms(1,2)]
  by (auto simp: update_rocket_def apply_force_def Let_def check_collision_rocket_eq
      split: if_splits)

lemma update_alive_after:
  assumes "update s = Inr s'" and "i < length (rockets s)"
  shows "alive (rockets s' ! i) \<longleftrightarrow>
           alive (rockets s ! i) \<and>
           \<not> (p_x (pos (rockets s' ! i)) < 0 \<or>
              p_x (pos (rockets s' ! i)) > of_int (width (win_size s)) \<or>
              p_y (pos (rockets s' ! i)) < 0 \<or>
              p_y (pos (rockets s' ! i)) > of_int (height (win_size s)) \<or>
              (\<exists>obs\<in>set (obstacles s). collidepoint obs (pos (rockets s' ! i))))"
  using update_Inr_rocket [OF assms(1,2)]
  by (auto simp: update_rocket_def apply_force_def Let_def check_collision_rocket_eq
      split: if_splits)

subsection \<open>Consecutive ticks\<close>

lemma updates_dead:
  "updates n s = Inr s' \<Longrightarrow> i < length (rockets s) \<Longrightarrow> \<not> alive (rockets s ! i) \<Longrightarrow>
     length (rockets s') = length (rockets s) \<and>
     pos (rockets s' ! i) = pos (rockets s ! i) \<and>
     angle (rockets s' ! i) = angle (rockets s ! i) \<and>
     \<not> alive (rockets s' ! i)"
proof (induction n arbitrary: s)
  case 0
  then show ?case by simp
next
  case (Suc n)
  from Suc.prems(1) obtain s1 where s1: "update s = Inr s1" and rest: "updates n s1 = Inr s'"
    by (auto split: sum.splits)
  have len: "length (rockets s1) = length (rockets s)"
    using s1 by (rule update_Inr_fields)
  from update_dead [OF s1 Suc.prems(2,3)] Suc.IH [OF rest] len Suc.prems(2)
  show ?case by simp
qed

lemma updates_total:
  "start s \<noteq> goal s \<Longrightarrow> (\<forall>r\<in>set (rockets s). genome r \<noteq> []) \<Longrightarrow> \<exists>s'. updates n s = Inr s'"
proof (induction n arbitrary: s)
  case 0
  then show ?case by simp
next
  case (Suc n)
  from Suc.prems obtain s1 where s1: "update s = Inr s1"
    using update_total [of s] by auto
  have "\<forall>r\<in>set (rockets s1). genome r \<noteq> []"
    using Suc.prems(2) update_genome [OF s1] update_Inr_fields(8) [OF s1]
    by (metis in_set_conv_nth)
  moreover have "start s1 \<noteq> goal s1"
    using Suc.prems(1) update_Inr_fields(2,3) [OF s1] by simp
  ultimately show ?case
    using Suc.IH [of s1] s1 by simp
qed

subsection \<open>Headings of the concrete rockets\<close>

lemma cos_radians_270: "cos (radians 270) = 0"
  using cos_3over2_pi by (simp add: radians_def)

lemma sin_radians_270: "sin (radians 270) = - 1"
  using sin_3over2_pi by (simp add: radians_def)

lemma cos_radians_277: "0 < cos (radians 277)"
proof -
  have split: "(277::real) * pi / 180 = 3 * pi / 2 + 7 * pi / 180"
    by simp
  have c: "cos (3 * pi / 2) = 0"
    using cos_3over2_pi by simp
  have s: "sin (3 * pi / 2) = - 1"
    using sin_3over2_pi by simp
  have "cos (3 * pi / 2 + 7 * pi / 180) = sin (7 * pi / 180)"
    unfolding cos_add c s by simp
  moreover have "0 < sin (7 * pi / 180)"
    by (rule sin_gt_zero) (use pi_gt_zero in simp_all)
  ultimately show ?thesis
    unfolding radians_def split by simp
qed

subsection \<open>The concrete states run\<close>

lemma example_sim_total: "\<exists>s'. update example_sim = Inr s'"
  by (rule update_total) (auto simp: example_sim_def example_rocket_def)

lemma wall_sim_update:
  "\<exists>s'. update wall_sim = Inr s' \<and> map pos (rockets s') = [Point 300 400, Point 300 402]"
proof -
  have "\<exists>s'. update wall_sim = Inr s'"
    by (rule update_total) (auto simp: wall_sim_def example_sim_def example_rocket_def)
  then obtain s' where s': "update wall_sim = Inr s'" ..
  have l: "length (rockets s') = 2"
    using update_Inr_fields(8) [OF s'] by (simp add: wall_sim_def)
  have "pos (rockets s' ! 0) = Point 300 400"
    using update_alive(2) [OF s', of 0]
    by (simp add: wall_sim_def example_sim_def example_rocket_def cos_radians_270 sin_radians_270)
  moreover have "pos (rockets s' ! 1) = Point 300 402"
    using update_alive(2) [OF s', of 1]
    by (simp add: wall_sim_def example_sim_def example_rocket_def cos_radians_270 sin_radians_270)
  ultimately have "map pos (rockets s') = [Point 300 400, Point 300 402]"
    using l by (auto simp: list_eq_iff_nth_eq nth_Cons' less_Suc_eq numeral_2_eq_2)
  with s' show ?thesis by auto
qed

subsection \<open>The random module, the constructor, the two counts\<close>

lemma randint_range:
  assumes "a \<le> b"
  shows "a \<le> fst (randint a b g) \<and> fst (randint a b g) \<le> b"
proof -
  define m where "m = rnd g (rnd_pos g) mod nat (b - a + 1)"
  have "m < nat (b - a + 1)"
    unfolding m_def using assms by simp
  then have "int m < b - a + 1"
    using assms by linarith
  then show ?thesis
    by (simp add: randint_def next_draw_def m_def [symmetric] del: of_nat_mod)
qed

lemma randints_length: "randints k a b g = (vs, g') \<Longrightarrow> length vs = k"
  by (induction k arbitrary: g vs g') (auto split: prod.splits)

lemma randints_range:
  "a \<le> b \<Longrightarrow> v \<in> set (fst (randints k a b g)) \<Longrightarrow> a \<le> v \<and> v \<le> b"
proof (induction k arbitrary: g)
  case 0
  then show ?case by simp
next
  case (Suc k)
  obtain x g1 where x: "randint a b g = (x, g1)" by (cases "randint a b g")
  obtain vs g2 where vs: "randints k a b g1 = (vs, g2)" by (cases "randints k a b g1")
  from Suc.prems(2) x vs have "v = x \<or> v \<in> set (fst (randints k a b g1))" by auto
  then show ?case
  proof
    assume "v = x"
    then show ?thesis using randint_range [OF Suc.prems(1), of g] x by simp
  next
    assume "v \<in> set (fst (randints k a b g1))"
    then show ?thesis using Suc.IH [OF Suc.prems(1)] by blast
  qed
qed

lemma choice_nonempty:
  "xs \<noteq> [] \<Longrightarrow> \<exists>x g'. choice xs g = Inr (x, g') \<and> x \<in> set xs"
  by (simp add: choice_def next_draw_def)

lemma elite_count: "nat (py_int (real n / 5)) = n div 5"
proof -
  have "\<lfloor>real n / real 5\<rfloor> = int (n div 5)"
    by (simp only: floor_divide_of_nat_eq)
  then show ?thesis by (simp add: py_int_def)
qed

lemma pairs_count: "nat (py_int (of_int d / 2)) = nat (d div 2)"
proof (cases "0 \<le> d")
  case True
  have "\<lfloor>(of_int d :: real) / of_int 2\<rfloor> = d div 2"
    by (rule floor_divide_of_int_eq)
  then show ?thesis using True by (simp add: py_int_def)
next
  case False
  then have "(of_int d :: real) / 2 < 0" by simp
  moreover from this have "\<lceil>(of_int d :: real) / 2\<rceil> \<le> 0"
    by (simp add: ceiling_le_iff)
  moreover have "d div 2 \<le> 0" using False by simp
  ultimately show ?thesis by (simp add: py_int_def)
qed

lemma selection_eq:
  "fst (selection rs g) = take (length rs div 5) (sort_key (\<lambda>r. - fitness r) rs)"
  by (simp add: selection_def selection_locals_def Let_def elite_count split: prod.splits)

subsection \<open>Crossover and mutation\<close>

lemma genome_ok_iff:
  "genome_ok r \<longleftrightarrow> length (genome r) = 300 \<and> (\<forall>v\<in>set (genome r). - 7 \<le> v \<and> v \<le> 7)"
  by (simp add: genome_ok_def list_all_iff)

lemma Rocket_init_genome_ok: "genome_ok (fst (Rocket_init g))"
proof -
  obtain gs g1 where r: "randints 300 (- 7) 7 g = (gs, g1)"
    by (cases "randints 300 (- 7) 7 g")
  have "length gs = 300"
    using r by (rule randints_length)
  moreover have "\<forall>v\<in>set gs. - 7 \<le> v \<and> v \<le> 7"
    using randints_range [of "- 7" 7 _ 300 g] r by simp
  ultimately show ?thesis
    by (simp add: Rocket_init_def r genome_ok_iff)
qed

lemma Rocket_init_genome_update:
  "Rocket_init g = (c, g') \<Longrightarrow> genome_ok (c\<lparr>genome := gs\<rparr>) \<longleftrightarrow>
     length gs = 300 \<and> (\<forall>v\<in>set gs. - 7 \<le> v \<and> v \<le> 7)"
  by (simp add: genome_ok_iff)

lemma child_genome_ok:
  assumes "genome_ok p1" and "genome_ok p2" and "0 \<le> split"
  shows "genome_ok (c\<lparr>genome := take (nat split) (genome p1) @ drop (nat split) (genome p2)\<rparr>)"
proof -
  have "\<forall>v\<in>set (take (nat split) (genome p1)). - 7 \<le> v \<and> v \<le> 7"
    using assms(1) by (auto simp: genome_ok_iff dest: in_set_takeD)
  moreover have "\<forall>v\<in>set (drop (nat split) (genome p2)). - 7 \<le> v \<and> v \<le> 7"
    using assms(2) by (auto simp: genome_ok_iff dest: in_set_dropD)
  moreover have "length (take (nat split) (genome p1) @ drop (nat split) (genome p2)) = 300"
    using assms(1,2) by (auto simp: genome_ok_iff)
  ultimately show ?thesis
    by (auto simp: genome_ok_iff)
qed

lemma other_parent_exists:
  assumes "2 \<le> length rs" and "distinct (map rid rs)"
  shows "filter (\<lambda>r. rid r \<noteq> rid p) rs \<noteq> []"
proof -
  from assms(1) obtain a b rest where rs: "rs = a # b # rest"
    by (cases rs; cases "tl rs") auto
  with assms(2) have "rid a \<noteq> rid b" by auto
  then have "rid a \<noteq> rid p \<or> rid b \<noteq> rid p" by auto
  then show ?thesis by (auto simp: rs)
qed

lemma crossover_loop_total:
  assumes "2 \<le> length rs" and "distinct (map rid rs)"
  shows "\<exists>off g'. crossover_loop k rs off0 g = Inr (off, g') \<and> length off = length off0 + 2 * k"
proof (induction k arbitrary: off0 g)
  case 0
  then show ?case by simp
next
  case (Suc k)
  have "rs \<noteq> []" using assms(1) by auto
  then obtain p1 g1 where p1: "choice rs g = Inr (p1, g1)"
    using choice_nonempty by blast
  obtain p2 g2 where p2: "choice (filter (\<lambda>r. rid r \<noteq> rid p1) rs) g1 = Inr (p2, g2)"
    using choice_nonempty [OF other_parent_exists [OF assms]] by blast
  obtain c1 g3 where c1: "Rocket_init g2 = (c1, g3)" by (cases "Rocket_init g2")
  obtain c2 g4 where c2: "Rocket_init g3 = (c2, g4)" by (cases "Rocket_init g3")
  obtain sp g5 where sp: "randint 0 (int (length (genome p1))) g4 = (sp, g5)"
    by (cases "randint 0 (int (length (genome p1))) g4")
  show ?case
    using Suc.IH [of "off0 @
        [c1\<lparr>genome := take (nat sp) (genome p1) @ drop (nat sp) (genome p2)\<rparr>,
         c2\<lparr>genome := take (nat sp) (genome p2) @ drop (nat sp) (genome p1)\<rparr>]" g5]
    by (simp add: p1 p2 c1 c2 sp)
qed

lemma crossover_loop_short:
  assumes "length rs \<le> 1"
  shows "crossover_loop (Suc k) rs off0 g = Inl IndexError"
proof (cases rs)
  case Nil
  then show ?thesis by (simp add: choice_def)
next
  case (Cons r rest)
  with assms have "rs = [r]" by simp
  then show ?thesis by (simp add: choice_def next_draw_def)
qed

lemma crossover_loop_genome_ok:
  "crossover_loop k rs off0 g = Inr (off, g') \<Longrightarrow> \<forall>r\<in>set rs. genome_ok r \<Longrightarrow>
     \<forall>r\<in>set off0. genome_ok r \<Longrightarrow> \<forall>r\<in>set off. genome_ok r"
proof (induction k arbitrary: off0 g)
  case 0
  then show ?case by simp
next
  case (Suc k)
  from Suc.prems(1) obtain p1 g1 where p1: "choice rs g = Inr (p1, g1)"
    by (auto split: sum.splits)
  from Suc.prems(1) p1 obtain p2 g2 where
    p2: "choice (filter (\<lambda>r. rid r \<noteq> rid p1) rs) g1 = Inr (p2, g2)"
    by (auto split: sum.splits)
  obtain c1 g3 where c1: "Rocket_init g2 = (c1, g3)" by (cases "Rocket_init g2")
  obtain c2 g4 where c2: "Rocket_init g3 = (c2, g4)" by (cases "Rocket_init g3")
  obtain sp g5 where sp: "randint 0 (int (length (genome p1))) g4 = (sp, g5)"
    by (cases "randint 0 (int (length (genome p1))) g4")
  let ?off1 = "off0 @
        [c1\<lparr>genome := take (nat sp) (genome p1) @ drop (nat sp) (genome p2)\<rparr>,
         c2\<lparr>genome := take (nat sp) (genome p2) @ drop (nat sp) (genome p1)\<rparr>]"
  have rest: "crossover_loop k rs ?off1 g5 = Inr (off, g')"
    using Suc.prems(1) by (simp add: p1 p2 c1 c2 sp)
  have "p1 \<in> set rs"
    using p1 by (auto simp: choice_def next_draw_def split: if_splits)
  then have ok1: "genome_ok p1" using Suc.prems(2) by blast
  have "p2 \<in> set (filter (\<lambda>r. rid r \<noteq> rid p1) rs)"
    using p2 by (auto simp: choice_def next_draw_def split: if_splits simp del: set_filter)
  then have ok2: "genome_ok p2" using Suc.prems(2) by auto
  have "0 \<le> sp"
    using randint_range [of 0 "int (length (genome p1))" g4] sp by simp
  then have "\<forall>r\<in>set ?off1. genome_ok r"
    using Suc.prems(3) child_genome_ok [OF ok1 ok2] child_genome_ok [OF ok2 ok1] by auto
  with Suc.IH [OF rest Suc.prems(2)] show ?case by blast
qed

lemma crossover_total:
  assumes "2 \<le> length rs" and "distinct (map rid rs)"
  shows "\<exists>pool g'. crossover s rs g = Inr (pool, g') \<and>
           length pool = length rs + 2 * nat ((population s - int (length rs)) div 2)"
proof -
  obtain off g' where
    "crossover_loop (nat ((population s - int (length rs)) div 2)) rs [] g = Inr (off, g')"
    and "length off = 2 * nat ((population s - int (length rs)) div 2)"
    using crossover_loop_total
      [OF assms, of "nat ((population s - int (length rs)) div 2)" "[]" g] by auto
  then show ?thesis
    unfolding crossover_def pairs_count by simp
qed

lemma crossover_short:
  assumes "length rs \<le> 1" and "int (length rs) + 2 \<le> population s"
  shows "crossover s rs g = Inl IndexError"
proof -
  have "0 < nat ((population s - int (length rs)) div 2)"
    using assms(2) by simp
  then obtain k where "nat ((population s - int (length rs)) div 2) = Suc k"
    using gr0_implies_Suc by blast
  then show ?thesis
    using crossover_loop_short [OF assms(1)]
    unfolding crossover_def pairs_count by simp
qed

lemma crossover_genome_ok:
  assumes "crossover s rs g = Inr (pool, g')" and "\<forall>r\<in>set rs. genome_ok r"
  shows "\<forall>r\<in>set pool. genome_ok r"
proof -
  from assms(1) obtain off where
    off: "crossover_loop (nat (py_int (of_int (population s - int (length rs)) / 2))) rs [] g
            = Inr (off, g')" and pool: "pool = rs @ off"
    by (auto simp: crossover_def split: sum.splits)
  have "\<forall>r\<in>set off. genome_ok r"
    using crossover_loop_genome_ok [OF off assms(2)] by simp
  then show ?thesis
    using assms(2) pool by auto
qed

lemma mutation_genome_range:
  "mutation_genome xs g = (ys, g') \<Longrightarrow>
     length ys = length xs \<and> (\<forall>v\<in>set ys. v \<in> set xs \<or> (- 7 \<le> v \<and> v \<le> 7))"
proof (induction xs arbitrary: g ys g')
  case Nil
  then show ?case by simp
next
  case (Cons x xs)
  obtain u g1 where u: "uniform 0 1 g = (u, g1)" by (cases "uniform 0 1 g")
  show ?case
  proof (cases "u * 10 \<le> 1")
    case True
    obtain v g2 where v: "randint (- 7) 7 g1 = (v, g2)" by (cases "randint (- 7) 7 g1")
    obtain zs g3 where zs: "mutation_genome xs g2 = (zs, g3)" by (cases "mutation_genome xs g2")
    have "- 7 \<le> v \<and> v \<le> 7"
      using randint_range [of "- 7" 7 g1] v by simp
    then show ?thesis
      using Cons.prems Cons.IH [OF zs] True by (auto simp: u v zs)
  next
    case False
    obtain zs g3 where zs: "mutation_genome xs g1 = (zs, g3)" by (cases "mutation_genome xs g1")
    show ?thesis
      using Cons.prems Cons.IH [OF zs] False by (auto simp: u zs)
  qed
qed

lemma mutation_result:
  "mutation rs g = (rs', g') \<Longrightarrow>
     length rs' = length rs \<and> map rid rs' = map rid rs \<and>
     ((\<forall>r\<in>set rs. genome_ok r) \<longrightarrow> (\<forall>r\<in>set rs'. genome_ok r))"
proof (induction rs arbitrary: g rs' g')
  case Nil
  then show ?case by simp
next
  case (Cons r rs)
  obtain gs g1 where gs: "mutation_genome (genome r) g = (gs, g1)"
    by (cases "mutation_genome (genome r) g")
  obtain ts g2 where ts: "mutation rs g1 = (ts, g2)" by (cases "mutation rs g1")
  have "genome_ok r \<Longrightarrow> genome_ok (r\<lparr>genome := gs\<rparr>)"
    using mutation_genome_range [OF gs] by (auto simp: genome_ok_iff)
  then show ?case
    using Cons.prems Cons.IH [OF ts] by (auto simp: gs ts)
qed

lemma selection_length: "length (fst (selection rs g)) = length rs div 5"
  by (simp add: selection_eq)

lemma selection_subset: "set (fst (selection rs g)) \<subseteq> set rs"
  using set_take_subset [of "length rs div 5" "sort_key (\<lambda>r. - fitness r) rs"]
  by (simp add: selection_eq)

lemma selection_distinct:
  assumes "distinct (map rid rs)"
  shows "distinct (map rid (fst (selection rs g)))"
proof -
  have "distinct (map rid (sort_key (\<lambda>r. - fitness r) rs))"
    using assms by (simp add: distinct_map)
  then have "distinct (take (length rs div 5) (map rid (sort_key (\<lambda>r. - fitness r) rs)))"
    by (rule distinct_take)
  then show ?thesis
    by (simp add: selection_eq take_map)
qed

lemma breeding_total:
  assumes "10 \<le> length rs" and "distinct (map rid rs)"
  shows "\<exists>pool g'. breeding s rs g = Inr (pool, g') \<and>
           length pool =
             length rs div 5 + 2 * nat ((population s - int (length rs div 5)) div 2)"
proof -
  obtain rs1 g1 where sel: "selection rs g = (rs1, g1)" by (cases "selection rs g")
  have l: "length rs1 = length rs div 5"
    using selection_length [of rs g] sel by simp
  then have "2 \<le> length rs1" using assms(1) by simp
  moreover have "distinct (map rid rs1)"
    using selection_distinct [OF assms(2), of g] sel by simp
  ultimately show ?thesis
    using crossover_total [of rs1 s g1] by (simp add: breeding_def sel l)
qed

lemma breeding_short:
  assumes "length rs < 10" and "int (length rs div 5) + 2 \<le> population s"
  shows "breeding s rs g = Inl IndexError"
proof -
  obtain rs1 g1 where sel: "selection rs g = (rs1, g1)" by (cases "selection rs g")
  have l: "length rs1 = length rs div 5"
    using selection_length [of rs g] sel by simp
  then have "length rs1 \<le> 1" using assms(1) by simp
  then show ?thesis
    using crossover_short [of rs1 s g1] assms(2) by (simp add: breeding_def sel l)
qed

lemma next_gen_breeding:
  "next_gen s g =
     (case breeding s (rockets s) g of
        Inl e \<Rightarrow> Inl e
      | Inr (rs2, g2) \<Rightarrow>
          (case mutation rs2 g2 of (rs3, g3) \<Rightarrow>
             Inr (s\<lparr>rockets := reset_rockets s rs3, index := 0,
                     generation := generation s + 1\<rparr>, g3)))"
  by (simp add: next_gen_def breeding_def split: prod.splits)

subsection \<open>A new generation, the states the program reaches\<close>

lemma example_ids: "map rid (map (example_rocket v) xs) = xs"
  by (induction xs) (simp_all add: example_rocket_def)

lemma next_gen_total:
  assumes "10 \<le> length (rockets s)" and "distinct (map rid (rockets s))"
  shows "\<exists>s' g'. next_gen s g = Inr (s', g') \<and>
           length (rockets s') =
             length (rockets s) div 5 +
             2 * nat ((population s - int (length (rockets s) div 5)) div 2) \<and>
           population s' = population s \<and> index s' = 0 \<and>
           generation s' = generation s + 1 \<and> start s' = start s \<and> goal s' = goal s"
proof -
  obtain pool g1 where b: "breeding s (rockets s) g = Inr (pool, g1)"
    and l: "length pool = length (rockets s) div 5 +
             2 * nat ((population s - int (length (rockets s) div 5)) div 2)"
    using breeding_total [OF assms, of s g] by auto
  obtain rs3 g3 where m: "mutation pool g1 = (rs3, g3)" by (cases "mutation pool g1")
  have "length rs3 = length pool"
    using mutation_result [OF m] by simp
  then show ?thesis
    using l by (simp add: next_gen_breeding b m reset_rockets_def)
qed

lemma tied_sorted:
  "map rid (sort_key (\<lambda>r. - fitness r) tied_rockets) = [1, 3, 7, 6, 2, 4, 9, 0, 8, 5]"
  by (simp add: tied_rockets_def example_rocket_def)

lemma new_rockets_genome_ok:
  "new_rockets k g = (rs, g') \<Longrightarrow> length rs = k \<and> (\<forall>r\<in>set rs. genome_ok r)"
proof (induction k arbitrary: g rs g')
  case 0
  then show ?case by simp
next
  case (Suc k)
  obtain r g1 where r: "Rocket_init g = (r, g1)" by (cases "Rocket_init g")
  obtain ts g2 where ts: "new_rockets k g1 = (ts, g2)" by (cases "new_rockets k g1")
  have "genome_ok r"
    using Rocket_init_genome_ok [of g] r by simp
  then show ?case
    using Suc.prems Suc.IH [OF ts] by (auto simp: r ts)
qed

lemma reset_rockets_genome_ok:
  "(\<forall>r\<in>set (reset_rockets s rs). genome_ok r) \<longleftrightarrow> (\<forall>r\<in>set rs. genome_ok r)"
  by (simp add: reset_rockets_def genome_ok_def)

lemma restart_genome_ok: "\<forall>r\<in>set (rockets (fst (restart cnf s g))). genome_ok r"
proof -
  obtain rs g1 where n: "new_rockets (nat (cnf_population cnf)) g = (rs, g1)"
    by (cases "new_rockets (nat (cnf_population cnf)) g")
  show ?thesis
    using new_rockets_genome_ok [OF n]
    by (simp add: restart_def Let_def n reset_rockets_genome_ok)
qed

lemma handle_event_genome_ok:
  assumes "\<forall>r\<in>set (rockets (fst (snd st))). genome_ok r"
  shows "\<forall>r\<in>set (rockets (fst (snd (handle_event cnf st ev)))). genome_ok r"
proof -
  obtain d sim g where st: "st = (d, sim, g)" by (cases st)
  show ?thesis
    using assms restart_genome_ok [of cnf sim g]
    by (cases ev) (auto simp: handle_event_def st split: prod.splits)
qed

lemma handle_events_genome_ok:
  "\<forall>r\<in>set (rockets (fst (snd st))). genome_ok r \<Longrightarrow>
   \<forall>r\<in>set (rockets (fst (snd (foldl (handle_event cnf) st evs)))). genome_ok r"
proof (induction evs arbitrary: st)
  case Nil
  then show ?case by simp
next
  case (Cons e evs)
  show ?case
    using Cons.IH [OF handle_event_genome_ok [OF Cons.prems]] by simp
qed

lemma next_gen_genome_ok:
  assumes "next_gen s g = Inr (s', g')" and "\<forall>r\<in>set (rockets s). genome_ok r"
  shows "\<forall>r\<in>set (rockets s'). genome_ok r"
proof -
  obtain rs1 g1 where sel: "selection (rockets s) g = (rs1, g1)"
    by (cases "selection (rockets s) g")
  from assms(1) sel obtain rs2 g2 where cr: "crossover s rs1 g1 = Inr (rs2, g2)"
    by (auto simp: next_gen_def split: sum.splits)
  obtain rs3 g3 where mu: "mutation rs2 g2 = (rs3, g3)" by (cases "mutation rs2 g2")
  have "\<forall>r\<in>set rs1. genome_ok r"
    using selection_subset [of "rockets s" g] sel assms(2) by auto
  then have "\<forall>r\<in>set rs2. genome_ok r"
    using crossover_genome_ok [OF cr] by simp
  then have "\<forall>r\<in>set rs3. genome_ok r"
    using mutation_result [OF mu] by simp
  then have "\<forall>r\<in>set (reset_rockets s rs3). genome_ok r"
    by (simp only: reset_rockets_genome_ok)
  then show ?thesis
    using assms(1) by (auto simp: next_gen_def sel cr mu)
qed

lemma update_genome_ok:
  assumes "update s = Inr s'" and "\<forall>r\<in>set (rockets s). genome_ok r"
  shows "\<forall>r\<in>set (rockets s'). genome_ok r"
proof
  fix r assume "r \<in> set (rockets s')"
  then obtain i where i: "i < length (rockets s')" and r: "r = rockets s' ! i"
    by (auto simp: in_set_conv_nth)
  have l: "length (rockets s') = length (rockets s)"
    using assms(1) by (rule update_Inr_fields)
  have "genome r = genome (rockets s ! i)"
    using update_genome [OF assms(1)] i l r by simp
  moreover have "genome_ok (rockets s ! i)"
    using assms(2) i l by simp
  ultimately show "genome_ok r"
    by (simp add: genome_ok_def)
qed

lemma draw_rockets: "draw s = Inr s' \<Longrightarrow> rockets s' = rockets s"
  by (auto simp: draw_def Let_def split: if_splits)

lemma update_draw_genome_ok:
  assumes "snd (update_draw s g) = Inr (s', g')" and "\<forall>r\<in>set (rockets s). genome_ok r"
  shows "\<forall>r\<in>set (rockets s'). genome_ok r"
  using assms
  by (auto simp: update_draw_def split: if_splits sum.splits
      dest!: draw_rockets dest: update_genome_ok)

lemma main_body_genome_ok:
  assumes "snd (main_body s g) = Inr (s', g')" and "\<forall>r\<in>set (rockets s). genome_ok r"
  shows "\<forall>r\<in>set (rockets s'). genome_ok r"
proof (cases "alive_rockets s = 0")
  case True
  with assms(1) obtain s1 g1 where ng: "next_gen s g = Inr (s1, g1)"
    and ud: "snd (update_draw s1 g1) = Inr (s', g')"
    by (auto simp: main_body_def split: sum.splits prod.splits)
  show ?thesis
    using update_draw_genome_ok [OF ud] next_gen_genome_ok [OF ng assms(2)] by blast
next
  case False
  then show ?thesis
    using assms update_draw_genome_ok [of s g s' g'] by (simp add: main_body_def)
qed

lemma reachable_genome_ok:
  "reachable st \<Longrightarrow> \<forall>r\<in>set (rockets (fst st)). genome_ok r"
proof (induction rule: reachable.induct)
  case (init cnf s g)
  then show ?case by (rule restart_genome_ok)
next
  case (iteration sim g cnf evs d calls d' sim' g')
  obtain d1 s1 g1 where f: "foldl (handle_event cnf) (d, sim, g) evs = (d1, s1, g1)"
    by (cases "foldl (handle_event cnf) (d, sim, g) evs")
  have "\<forall>r\<in>set (rockets s1). genome_ok r"
    using handle_events_genome_ok [of "(d, sim, g)" cnf evs] iteration.IH f by simp
  moreover have "snd (main_body s1 g1) = Inr (sim', g')"
    using iteration.hyps(2) by (auto simp: main_iteration_def f split: prod.splits sum.splits)
  ultimately show ?case
    using main_body_genome_ok by auto
qed

lemma example_genome_ok: "genome_ok (example_rocket v i) \<longleftrightarrow> - 7 \<le> v \<and> v \<le> 7"
  by (simp add: genome_ok_iff example_rocket_def)

subsection \<open>The loop body\<close>

lemma alive_rockets_0_iff: "alive_rockets sim = 0 \<longleftrightarrow> (\<forall>r\<in>set (rockets sim). \<not> alive r)"
  by (simp add: alive_rockets_def filter_empty_conv)

lemma update_draw_calls:
  "NextGen \<notin> set (fst (update_draw sim g))"
  "Update \<in> set (fst (update_draw sim g)) \<longleftrightarrow> \<not> found_solution sim"
  by (auto simp: update_draw_def split: sum.splits)

lemma main_body_NextGen: "NextGen \<in> set (fst (main_body sim g)) \<longleftrightarrow> alive_rockets sim = 0"
  using update_draw_calls(1)
  by (auto simp: main_body_def split: sum.splits prod.splits)

lemma main_body_Update:
  "Update \<in> set (fst (main_body sim g)) \<longleftrightarrow>
     (if alive_rockets sim = 0
      then \<exists>sim1 g1. next_gen sim g = Inr (sim1, g1) \<and> \<not> found_solution sim1
      else \<not> found_solution sim)"
proof (cases "alive_rockets sim = 0")
  case False
  then show ?thesis by (simp add: main_body_def update_draw_calls)
next
  case True
  show ?thesis
  proof (cases "next_gen sim g")
    case (Inl e)
    then show ?thesis using True by (simp add: main_body_def)
  next
    case (Inr p)
    obtain sim1 g1 where p: "p = (sim1, g1)" by (cases p)
    show ?thesis
      using True Inr p update_draw_calls(2) [of sim1 g1]
      by (auto simp: main_body_def split: prod.splits)
  qed
qed

lemma main_body_frozen:
  "found_solution sim \<Longrightarrow> alive_rockets sim \<noteq> 0 \<Longrightarrow> main_body sim g = ([], Inr (sim, g))"
  by (simp add: main_body_def update_draw_def)

lemma draw_fields: "draw s = Inr s' \<Longrightarrow> generation s' = generation s \<and> index s' = index s"
  by (auto simp: draw_def Let_def split: if_splits)

lemma update_draw_generation:
  "snd (update_draw s g) = Inr (s', g') \<Longrightarrow> generation s' = generation s"
  by (auto simp: update_draw_def split: if_splits sum.splits
      dest!: draw_fields dest: update_Inr_fields(6))

lemma next_gen_result:
  assumes "next_gen s g = Inr (s', g')"
  shows "index s' = 0" "generation s' = generation s + 1" "goal s' = goal s" "start s' = start s"
    "population s' = population s" "obstacles s' = obstacles s" "win_size s' = win_size s"
    "\<forall>r\<in>set (rockets s').
        alive r \<and> angle r = 270 \<and> pos r = Point (p_x (start s)) (p_y (start s) + 3 - 50)"
    "\<exists>rs1 g1 rs2 g2 rs3.
        selection (rockets s) g = (rs1, g1) \<and> crossover s rs1 g1 = Inr (rs2, g2) \<and>
        mutation rs2 g2 = (rs3, g') \<and> rockets s' = reset_rockets s rs3"
  using assms
  by (auto simp: next_gen_def reset_rockets_def split: prod.splits sum.splits)

lemma main_body_generation:
  assumes "snd (main_body sim g) = Inr (sim', g')"
  shows "generation sim' = (if alive_rockets sim = 0 then generation sim + 1 else generation sim)"
proof (cases "alive_rockets sim = 0")
  case True
  with assms obtain s1 g1 where ng: "next_gen sim g = Inr (s1, g1)"
    and ud: "snd (update_draw s1 g1) = Inr (sim', g')"
    by (auto simp: main_body_def split: sum.splits prod.splits)
  show ?thesis
    using update_draw_generation [OF ud] next_gen_result(2) [OF ng] True by simp
next
  case False
  then show ?thesis
    using assms update_draw_generation [of sim g sim' g'] by (simp add: main_body_def)
qed

lemma main_iteration_calls:
  "fst (main_iteration cnf evs st) =
     fst (main_body (fst (snd (foldl (handle_event cnf) st evs)))
                    (snd (snd (foldl (handle_event cnf) st evs))))"
  by (simp add: main_iteration_def split: prod.splits sum.splits)

lemma handle_event_passive:
  assumes "ev \<noteq> KEYUP K_r" and "\<And>p. ev \<noteq> MOUSEBUTTONUP 3 p"
  shows "\<exists>d' f'. handle_event cnf (d, sim\<lparr>fps := f\<rparr>, g) ev = (d', sim\<lparr>fps := f'\<rparr>, g)"
proof (cases ev)
  case QUIT
  then show ?thesis by (auto simp: handle_event_def)
next
  case (KEYUP k)
  with assms(1) have "k \<noteq> K_r" by simp
  then show ?thesis
    using KEYUP by (cases k) (auto simp: handle_event_def)
next
  case (MOUSEBUTTONUP b p)
  with assms(2) [of p] have "b \<noteq> 3" by simp
  then show ?thesis
    using MOUSEBUTTONUP by (auto simp: handle_event_def)
next
  case OTHER
  then show ?thesis by (auto simp: handle_event_def)
qed

lemma handle_events_passive:
  "\<forall>ev\<in>set evs. ev \<noteq> KEYUP K_r \<and> (\<forall>p. ev \<noteq> MOUSEBUTTONUP 3 p) \<Longrightarrow>
   \<exists>d' f'. foldl (handle_event cnf) (d, sim\<lparr>fps := f\<rparr>, g) evs = (d', sim\<lparr>fps := f'\<rparr>, g)"
proof (induction evs arbitrary: d f)
  case Nil
  then show ?case by auto
next
  case (Cons e evs)
  have e1: "e \<noteq> KEYUP K_r" and e2: "\<And>p. e \<noteq> MOUSEBUTTONUP 3 p"
    using Cons.prems by auto
  obtain d1 f1 where "handle_event cnf (d, sim\<lparr>fps := f\<rparr>, g) e = (d1, sim\<lparr>fps := f1\<rparr>, g)"
    using handle_event_passive [OF e1 e2] by blast
  then show ?case
    using Cons.IH [where d = d1 and f = f1] Cons.prems by simp
qed

lemma frozen_fps:
  "found_solution (sim\<lparr>fps := f\<rparr>) = found_solution sim"
  "alive_rockets (sim\<lparr>fps := f\<rparr>) = alive_rockets sim"
  by (simp_all add: found_solution_def alive_rockets_def)

lemma main_iteration_frozen:
  assumes "found_solution sim" and "alive_rockets sim \<noteq> 0"
    and "\<forall>ev\<in>set evs. ev \<noteq> KEYUP K_r \<and> (\<forall>p. ev \<noteq> MOUSEBUTTONUP 3 p)"
  shows "\<exists>d' f'. main_iteration cnf evs (d, sim, g) = ([], Inr (d', sim\<lparr>fps := f'\<rparr>, g))"
proof -
  obtain d' f' where
    "foldl (handle_event cnf) (d, sim\<lparr>fps := fps sim\<rparr>, g) evs = (d', sim\<lparr>fps := f'\<rparr>, g)"
    using handle_events_passive [OF assms(3)] by blast
  then have "main_iteration cnf evs (d, sim, g) = ([], Inr (d', sim\<lparr>fps := f'\<rparr>, g))"
    using assms(1,2) by (simp add: main_iteration_def main_body_frozen frozen_fps)
  then show ?thesis by blast
qed

lemma example_sim_alive: "alive_rockets example_sim = 10"
  by (simp add: alive_rockets_def example_sim_def example_rocket_def comp_def)

lemma frozen_sim_state: "found_solution frozen_sim" "alive_rockets frozen_sim = 10"
  by (simp_all add: found_solution_def alive_rockets_def frozen_sim_def example_sim_def
      example_rocket_def comp_def distance_def hypot_0_left filter_empty_conv upt_conv_Cons)

lemma solved_dead_sim_state:
  "found_solution solved_dead_sim" "alive_rockets solved_dead_sim = 0"
  by (simp_all add: found_solution_def alive_rockets_def solved_dead_sim_def example_sim_def
      example_rocket_def comp_def distance_def hypot_0_left filter_empty_conv upt_conv_Cons)

lemma solved_dead_sim_calls:
  "fst (main_body solved_dead_sim example_globals) = [NextGen, Update, Draw]"
proof -
  have r: "rockets solved_dead_sim =
      map (\<lambda>i. (example_rocket 0 i)\<lparr>pos := Point 300 19, alive := False\<rparr>) [0..<10]"
    by (simp add: solved_dead_sim_def)
  have ids: "map rid (rockets solved_dead_sim) = [0..<10]"
    unfolding r by (simp add: example_rocket_def comp_def map_idI)
  have len: "length (rockets solved_dead_sim) = 10"
    unfolding r by simp
  have ok: "\<forall>r\<in>set (rockets solved_dead_sim). genome_ok r"
    unfolding r by (simp add: genome_ok_iff example_rocket_def)
  have d: "distinct (map rid (rockets solved_dead_sim))"
    by (simp only: ids distinct_upt)
  have fields: "population solved_dead_sim = 10" "start solved_dead_sim = Point 300 750"
    "goal solved_dead_sim = Point 300 10"
    by (simp_all add: solved_dead_sim_def example_sim_def)
  have ten: "10 \<le> length (rockets solved_dead_sim)"
    by (simp add: len)
  obtain s1 g1 where ng: "next_gen solved_dead_sim example_globals = Inr (s1, g1)"
    and l1: "length (rockets s1) = 10"
    and sg: "start s1 = Point 300 750" "goal s1 = Point 300 10"
    using next_gen_total [OF ten d, of example_globals]
    by (auto simp: len fields)
  have ps: "\<forall>r\<in>set (rockets s1). pos r = Point 300 703"
    using next_gen_result(8) [OF ng] by (simp add: fields)
  then have ns: "\<not> found_solution s1"
    by (simp add: found_solution_def filter_empty_conv sg distance_def hypot_0_left)
  have ok1: "\<forall>r\<in>set (rockets s1). genome_ok r"
    using next_gen_genome_ok [OF ng ok] .
  have "\<exists>s2. update s1 = Inr s2"
    using ok1 by (intro update_total) (auto simp: sg genome_ok_def)
  then obtain s2 where up: "update s1 = Inr s2" ..
  have "rockets s2 \<noteq> []"
    using update_Inr_fields(8) [OF up] l1 by auto
  then obtain s3 where dr: "draw s2 = Inr s3"
    by (auto simp: draw_def Let_def)
  show ?thesis
    using solved_dead_sim_state(2) ng ns up dr
    by (simp add: main_body_def update_draw_def)
qed

subsection \<open>The identities of the rockets\<close>

lemma ids_fresh_alt:
  "ids_fresh rs g \<longleftrightarrow> distinct (map rid rs) \<and> (\<forall>i\<in>set (map rid rs). i < next_id g)"
  by (simp add: ids_fresh_def)

lemma ids_fresh_cong:
  "map rid rs' = map rid rs \<Longrightarrow> next_id g' = next_id g \<Longrightarrow> ids_fresh rs g \<Longrightarrow> ids_fresh rs' g'"
  by (simp add: ids_fresh_alt)

lemma uniform_next_id: "uniform a b g = (u, g') \<Longrightarrow> next_id g' = next_id g"
  by (auto simp: uniform_def next_draw_def)

lemma randint_next_id: "randint a b g = (v, g') \<Longrightarrow> next_id g' = next_id g"
  by (auto simp: randint_def next_draw_def)

lemma choice_next_id: "choice xs g = Inr (x, g') \<Longrightarrow> next_id g' = next_id g"
  by (auto simp: choice_def next_draw_def split: if_splits)

lemma randints_next_id: "randints k a b g = (vs, g') \<Longrightarrow> next_id g' = next_id g"
proof (induction k arbitrary: g vs g')
  case 0
  then show ?case by simp
next
  case (Suc k)
  obtain v g1 where v: "randint a b g = (v, g1)" by (cases "randint a b g")
  obtain ws g2 where ws: "randints k a b g1 = (ws, g2)" by (cases "randints k a b g1")
  show ?case
    using Suc.prems Suc.IH [OF ws] randint_next_id [OF v] by (simp add: v ws)
qed

lemma Rocket_init_id:
  "Rocket_init g = (r, g') \<Longrightarrow> rid r = next_id g \<and> next_id g' = Suc (next_id g)"
proof -
  assume a: "Rocket_init g = (r, g')"
  obtain gs g1 where gs: "randints 300 (- 7) 7 g = (gs, g1)"
    by (cases "randints 300 (- 7) 7 g")
  show ?thesis
    using a randints_next_id [OF gs] by (auto simp: Rocket_init_def gs)
qed

lemma new_rockets_ids:
  "new_rockets k g = (rs, g') \<Longrightarrow>
     map rid rs = [next_id g..<next_id g + k] \<and> next_id g' = next_id g + k"
proof (induction k arbitrary: g rs g')
  case 0
  then show ?case by simp
next
  case (Suc k)
  obtain r g1 where r: "Rocket_init g = (r, g1)" by (cases "Rocket_init g")
  obtain ts g2 where ts: "new_rockets k g1 = (ts, g2)" by (cases "new_rockets k g1")
  show ?case
    using Suc.prems Suc.IH [OF ts] Rocket_init_id [OF r]
    by (auto simp: r ts upt_conv_Cons)
qed

lemma selection_next_id: "selection rs g = (rs1, g1) \<Longrightarrow> next_id g1 = next_id g"
  by (auto simp: selection_def selection_locals_def Let_def split: prod.splits if_splits
      dest: uniform_next_id)

lemma crossover_loop_ids:
  "crossover_loop k rs off0 g = Inr (off, g') \<Longrightarrow>
     map rid off = map rid off0 @ [next_id g..<next_id g + 2 * k] \<and>
     next_id g' = next_id g + 2 * k"
proof (induction k arbitrary: off0 g)
  case 0
  then show ?case by simp
next
  case (Suc k)
  from Suc.prems(1) obtain p1 g1 where p1: "choice rs g = Inr (p1, g1)"
    by (auto split: sum.splits)
  from Suc.prems(1) p1 obtain p2 g2 where
    p2: "choice (filter (\<lambda>r. rid r \<noteq> rid p1) rs) g1 = Inr (p2, g2)"
    by (auto split: sum.splits)
  obtain c1 g3 where c1: "Rocket_init g2 = (c1, g3)" by (cases "Rocket_init g2")
  obtain c2 g4 where c2: "Rocket_init g3 = (c2, g4)" by (cases "Rocket_init g3")
  obtain sp g5 where sp: "randint 0 (int (length (genome p1))) g4 = (sp, g5)"
    by (cases "randint 0 (int (length (genome p1))) g4")
  let ?off1 = "off0 @
        [c1\<lparr>genome := take (nat sp) (genome p1) @ drop (nat sp) (genome p2)\<rparr>,
         c2\<lparr>genome := take (nat sp) (genome p2) @ drop (nat sp) (genome p1)\<rparr>]"
  have rest: "crossover_loop k rs ?off1 g5 = Inr (off, g')"
    using Suc.prems(1) by (simp add: p1 p2 c1 c2 sp)
  have n: "next_id g2 = next_id g" "rid c1 = next_id g" "rid c2 = Suc (next_id g)"
    "next_id g5 = Suc (Suc (next_id g))"
    using choice_next_id [OF p1] choice_next_id [OF p2] Rocket_init_id [OF c1]
      Rocket_init_id [OF c2] randint_next_id [OF sp] by simp_all
  have "[next_id g..<next_id g + 2 * Suc k] =
          next_id g # Suc (next_id g) # [Suc (Suc (next_id g))..<Suc (Suc (next_id g)) + 2 * k]"
    by (simp add: upt_conv_Cons)
  then show ?case
    using Suc.IH [OF rest] n by simp
qed

lemma mutation_genome_next_id: "mutation_genome xs g = (ys, g') \<Longrightarrow> next_id g' = next_id g"
proof (induction xs arbitrary: g ys g')
  case Nil
  then show ?case by simp
next
  case (Cons x xs)
  obtain u g1 where u: "uniform 0 1 g = (u, g1)" by (cases "uniform 0 1 g")
  show ?case
  proof (cases "u * 10 \<le> 1")
    case True
    obtain v g2 where v: "randint (- 7) 7 g1 = (v, g2)" by (cases "randint (- 7) 7 g1")
    obtain zs g3 where zs: "mutation_genome xs g2 = (zs, g3)" by (cases "mutation_genome xs g2")
    show ?thesis
      using Cons.prems Cons.IH [OF zs] True uniform_next_id [OF u] randint_next_id [OF v]
      by (auto simp: u v zs)
  next
    case False
    obtain zs g3 where zs: "mutation_genome xs g1 = (zs, g3)" by (cases "mutation_genome xs g1")
    show ?thesis
      using Cons.prems Cons.IH [OF zs] False uniform_next_id [OF u] by (auto simp: u zs)
  qed
qed

lemma mutation_next_id: "mutation rs g = (rs', g') \<Longrightarrow> next_id g' = next_id g"
proof (induction rs arbitrary: g rs' g')
  case Nil
  then show ?case by simp
next
  case (Cons r rs)
  obtain gs g1 where gs: "mutation_genome (genome r) g = (gs, g1)"
    by (cases "mutation_genome (genome r) g")
  obtain ts g2 where ts: "mutation rs g1 = (ts, g2)" by (cases "mutation rs g1")
  show ?case
    using Cons.prems Cons.IH [OF ts] mutation_genome_next_id [OF gs] by (auto simp: gs ts)
qed

lemma ids_fresh_range:
  assumes "ids_fresh rs g" and "next_id g' = next_id g + k"
    and "map rid rs' = map rid rs @ [next_id g..<next_id g + k]"
  shows "ids_fresh rs' g'"
proof -
  have "distinct (map rid rs @ [next_id g..<next_id g + k])"
    using assms(1) by (auto simp: ids_fresh_alt)
  moreover have "\<forall>i\<in>set (map rid rs @ [next_id g..<next_id g + k]). i < next_id g + k"
    using assms(1) by (auto simp: ids_fresh_alt)
  ultimately show ?thesis
    by (simp only: ids_fresh_alt assms(2,3))
qed

lemma reset_rockets_ids: "map rid (reset_rockets s rs) = map rid rs"
  by (simp add: reset_rockets_def)

lemma selection_ids_fresh:
  assumes "selection rs g = (rs1, g1)" and "ids_fresh rs g"
  shows "ids_fresh rs1 g1"
  using selection_distinct [of rs g] selection_subset [of rs g] selection_next_id [OF assms(1)]
    assms
  by (auto simp: ids_fresh_def)

lemma next_gen_ids_fresh:
  assumes "next_gen s g = Inr (s', g')" and "ids_fresh (rockets s) g"
  shows "ids_fresh (rockets s') g'"
proof -
  obtain rs1 g1 where sel: "selection (rockets s) g = (rs1, g1)"
    by (cases "selection (rockets s) g")
  from assms(1) sel obtain rs2 g2 where cr: "crossover s rs1 g1 = Inr (rs2, g2)"
    by (auto simp: next_gen_def split: sum.splits)
  obtain rs3 g3 where mu: "mutation rs2 g2 = (rs3, g3)" by (cases "mutation rs2 g2")
  have s': "rockets s' = reset_rockets s rs3" and g': "g' = g3"
    using assms(1) by (auto simp: next_gen_def sel cr mu)
  have f1: "ids_fresh rs1 g1"
    using selection_ids_fresh [OF sel assms(2)] .
  from cr obtain off k where
    off: "crossover_loop k rs1 [] g1 = Inr (off, g2)" and rs2: "rs2 = rs1 @ off"
    by (auto simp: crossover_def split: sum.splits)
  have "map rid rs2 = map rid rs1 @ [next_id g1..<next_id g1 + 2 * k]"
    and "next_id g2 = next_id g1 + 2 * k"
    using crossover_loop_ids [OF off] rs2 by simp_all
  then have "ids_fresh rs2 g2"
    using ids_fresh_range [OF f1] by blast
  then have "ids_fresh rs3 g3"
    using ids_fresh_cong [of rs3 rs2 g3 g2] mutation_result [OF mu] mutation_next_id [OF mu]
    by simp
  then show ?thesis
    unfolding s' g' using ids_fresh_cong [of "reset_rockets s rs3" rs3 g3 g3]
    by (simp add: reset_rockets_ids)
qed

lemma update_ids:
  assumes "update s = Inr s'"
  shows "map rid (rockets s') = map rid (rockets s)"
proof (rule nth_equalityI)
  show l: "length (map rid (rockets s')) = length (map rid (rockets s))"
    using update_Inr_fields(8) [OF assms] by simp
  fix i assume "i < length (map rid (rockets s'))"
  then have i: "i < length (rockets s)" using l by simp
  have "rid (rockets s' ! i) = rid (rockets s ! i)"
    using update_Inr_rocket [OF assms i]
    by (auto simp: update_rocket_def apply_force_def Let_def check_collision_rocket_eq
        split: if_splits)
  then show "map rid (rockets s') ! i = map rid (rockets s) ! i"
    using i l by simp
qed

lemma update_draw_ids:
  assumes "snd (update_draw s g) = Inr (s', g')"
  shows "map rid (rockets s') = map rid (rockets s) \<and> g' = g"
  using assms
  by (auto simp: update_draw_def split: if_splits sum.splits
      dest!: draw_rockets dest: update_ids)

lemma main_body_ids_fresh:
  assumes "snd (main_body s g) = Inr (s', g')" and "ids_fresh (rockets s) g"
  shows "ids_fresh (rockets s') g'"
proof (cases "alive_rockets s = 0")
  case True
  with assms(1) obtain s1 g1 where ng: "next_gen s g = Inr (s1, g1)"
    and ud: "snd (update_draw s1 g1) = Inr (s', g')"
    by (auto simp: main_body_def split: sum.splits prod.splits)
  show ?thesis
    using update_draw_ids [OF ud] next_gen_ids_fresh [OF ng assms(2)]
    by (auto intro: ids_fresh_cong)
next
  case False
  then have "snd (update_draw s g) = Inr (s', g')"
    using assms(1) by (simp add: main_body_def)
  then show ?thesis
    using update_draw_ids [of s g s' g'] assms(2) by (auto intro: ids_fresh_cong)
qed

lemma restart_ids_fresh: "ids_fresh (rockets (fst (restart cnf s g))) (snd (restart cnf s g))"
proof -
  obtain rs g1 where n: "new_rockets (nat (cnf_population cnf)) g = (rs, g1)"
    by (cases "new_rockets (nat (cnf_population cnf)) g")
  have "ids_fresh rs g1"
    using new_rockets_ids [OF n] by (simp add: ids_fresh_alt)
  then show ?thesis
    by (simp add: restart_def Let_def n ids_fresh_alt reset_rockets_ids)
qed

lemma handle_event_ids_fresh:
  assumes "ids_fresh (rockets (fst (snd st))) (snd (snd st))"
  shows "ids_fresh (rockets (fst (snd (handle_event cnf st ev))))
           (snd (snd (handle_event cnf st ev)))"
proof -
  obtain d sim g where st: "st = (d, sim, g)" by (cases st)
  show ?thesis
    using assms restart_ids_fresh [of cnf sim g]
    by (cases ev) (auto simp: handle_event_def st ids_fresh_def split: prod.splits)
qed

lemma handle_events_ids_fresh:
  "ids_fresh (rockets (fst (snd st))) (snd (snd st)) \<Longrightarrow>
   ids_fresh (rockets (fst (snd (foldl (handle_event cnf) st evs))))
     (snd (snd (foldl (handle_event cnf) st evs)))"
proof (induction evs arbitrary: st)
  case Nil
  then show ?case by simp
next
  case (Cons e evs)
  show ?case
    using Cons.IH [OF handle_event_ids_fresh [OF Cons.prems]] by simp
qed

lemma reachable_ids_fresh: "reachable st \<Longrightarrow> ids_fresh (rockets (fst st)) (snd st)"
proof (induction rule: reachable.induct)
  case (init cnf s g)
  then show ?case by (rule restart_ids_fresh)
next
  case (iteration sim g cnf evs d calls d' sim' g')
  obtain d1 s1 g1 where f: "foldl (handle_event cnf) (d, sim, g) evs = (d1, s1, g1)"
    by (cases "foldl (handle_event cnf) (d, sim, g) evs")
  have "ids_fresh (rockets s1) g1"
    using handle_events_ids_fresh [of "(d, sim, g)" cnf evs] iteration.IH f by simp
  moreover have "snd (main_body s1 g1) = Inr (sim', g')"
    using iteration.hyps(2) by (auto simp: main_iteration_def f split: prod.splits sum.splits)
  ultimately show ?case
    using main_body_ids_fresh by auto
qed

lemma crossover_no_offspring:
  assumes "population s \<le> int (length rs) + 1"
  shows "crossover s rs g = Inr (rs, g)"
proof -
  have "nat ((population s - int (length rs)) div 2) = 0"
    using assms by simp
  then show ?thesis
    unfolding crossover_def pairs_count by simp
qed

lemma breeding_returns:
  assumes "distinct (map rid rs)"
    and "10 \<le> length rs \<or> population s \<le> int (length rs div 5) + 1"
  shows "\<exists>pool g'. breeding s rs g = Inr (pool, g') \<and>
           length pool =
             length rs div 5 + 2 * nat ((population s - int (length rs div 5)) div 2)"
proof (cases "10 \<le> length rs")
  case True
  then show ?thesis using breeding_total [OF _ assms(1)] by blast
next
  case False
  with assms(2) have p: "population s \<le> int (length rs div 5) + 1" by simp
  obtain rs1 g1 where sel: "selection rs g = (rs1, g1)" by (cases "selection rs g")
  have l: "length rs1 = length rs div 5"
    using selection_length [of rs g] sel by simp
  have "crossover s rs1 g1 = Inr (rs1, g1)"
    using p by (intro crossover_no_offspring) (simp add: l)
  moreover have "nat ((population s - int (length rs div 5)) div 2) = 0"
    using p by simp
  ultimately show ?thesis
    by (simp add: breeding_def sel l)
qed

lemma next_gen_returns:
  assumes "distinct (map rid (rockets s))"
    and "10 \<le> length (rockets s) \<or> population s \<le> int (length (rockets s) div 5) + 1"
  shows "\<exists>s' g'. next_gen s g = Inr (s', g') \<and>
           length (rockets s') =
             length (rockets s) div 5 +
             2 * nat ((population s - int (length (rockets s) div 5)) div 2) \<and>
           population s' = population s"
proof -
  obtain pool g1 where b: "breeding s (rockets s) g = Inr (pool, g1)"
    and l: "length pool = length (rockets s) div 5 +
             2 * nat ((population s - int (length (rockets s) div 5)) div 2)"
    using breeding_returns [OF assms, of g] by auto
  obtain rs3 g3 where m: "mutation pool g1 = (rs3, g3)" by (cases "mutation pool g1")
  have "length rs3 = length pool"
    using mutation_result [OF m] by simp
  then show ?thesis
    using l by (simp add: next_gen_breeding b m reset_rockets_def)
qed

lemma reachable_distinct: "reachable (s, g) \<Longrightarrow> distinct (map rid (rockets s))"
  using reachable_ids_fresh [of "(s, g)"] by (simp add: ids_fresh_def)

subsection \<open>The loop body, case by case\<close>

lemma hypot_196_672: "hypot 196 672 = 700"
proof -
  have "(196::real)\<^sup>2 + 672\<^sup>2 = 700\<^sup>2" by simp
  then show ?thesis
    unfolding hypot_def by (simp only: real_sqrt_abs)
qed

lemma update_genomes:
  assumes "update s = Inr s'"
  shows "map genome (rockets s') = map genome (rockets s)"
proof (rule nth_equalityI)
  show l: "length (map genome (rockets s')) = length (map genome (rockets s))"
    using update_Inr_fields(8) [OF assms] by simp
  fix i assume "i < length (map genome (rockets s'))"
  then have i: "i < length (rockets s)" using l by simp
  then show "map genome (rockets s') ! i = map genome (rockets s) ! i"
    using update_genome [OF assms i] l by simp
qed

lemma update_draw_frame:
  assumes "snd (update_draw s g) = Inr (s', g')"
  shows "g' = g" "map rid (rockets s') = map rid (rockets s)"
    "map genome (rockets s') = map genome (rockets s)"
  using assms
  by (auto simp: update_draw_def split: if_splits sum.splits
      dest!: draw_rockets dest: update_ids update_genomes)

lemma main_body_alive: "alive_rockets sim \<noteq> 0 \<Longrightarrow> main_body sim g = update_draw sim g"
  by (simp add: main_body_def)

lemma main_body_dead_raise:
  "alive_rockets sim = 0 \<Longrightarrow> next_gen sim g = Inl e \<Longrightarrow> main_body sim g = ([NextGen], Inl e)"
  by (simp add: main_body_def)

lemma main_body_dead_bred:
  "alive_rockets sim = 0 \<Longrightarrow> next_gen sim g = Inr (sim1, g1) \<Longrightarrow>
     main_body sim g = (NextGen # fst (update_draw sim1 g1), snd (update_draw sim1 g1))"
  by (simp add: main_body_def split: prod.splits)

lemma update_draw_cases:
  "found_solution s \<Longrightarrow> update_draw s g = ([], Inr (s, g))"
  "\<not> found_solution s \<Longrightarrow> update s = Inl e \<Longrightarrow> update_draw s g = ([Update], Inl e)"
  "\<not> found_solution s \<Longrightarrow> update s = Inr s2 \<Longrightarrow> draw s2 = Inl e \<Longrightarrow>
     update_draw s g = ([Update, Draw], Inl e)"
  "\<not> found_solution s \<Longrightarrow> update s = Inr s2 \<Longrightarrow> draw s2 = Inr s3 \<Longrightarrow>
     update_draw s g = ([Update, Draw], Inr (s3, g))"
  by (simp_all add: update_draw_def)

lemma main_iteration_result:
  assumes "foldl (handle_event cnf) st evs = (d1, s1, g1)"
  shows "fst (main_iteration cnf evs st) = fst (main_body s1 g1)"
    "snd (main_body s1 g1) = Inl e \<Longrightarrow> snd (main_iteration cnf evs st) = Inl e"
    "snd (main_body s1 g1) = Inr (sim', g') \<Longrightarrow>
       snd (main_iteration cnf evs st) = Inr (d1, sim', g')"
  using assms by (auto simp: main_iteration_def split: prod.splits sum.splits)

section \<open>The claims\<close>

subsection \<open>C1: the order of turning and moving within a tick\<close>

text \<open>
  C1, as the specification states it: for an alive agent a tick first adds the genome
  instruction to the heading and then moves the agent by 3 along the new heading.
  The code does the opposite. In the example simulation the first rocket stands at
  \<open>(300, 703)\<close> with heading 270 and instruction 7: \<open>update\<close> moves it straight up to
  \<open>(300, 700)\<close>, whereas the step of the specification would move it along heading 277
  and leave it to the right of \<open>x = 300\<close>.
\<close>

theorem update_heading_first_counterexample:
  "map_sum id (pos \<circ> hd \<circ> rockets) (update example_sim) = Inr (Point 300 700) \<and>
   pos (spec_step (genome (hd (rockets example_sim)) !
                     (index example_sim mod length (genome (hd (rockets example_sim))))) 3
          (hd (rockets example_sim))) \<noteq> Point 300 700"
proof -
  obtain s' where s': "update example_sim = Inr s'"
    using example_sim_total ..
  have i: "0 < length (rockets example_sim)" and a: "alive (rockets example_sim ! 0)"
    by (simp_all add: example_sim_def example_rocket_def upt_conv_Cons)
  have "pos (rockets s' ! 0) = Point 300 700"
    using update_alive(2) [OF s' i a]
    by (simp add: example_sim_def example_rocket_def upt_conv_Cons cos_radians_270 sin_radians_270)
  moreover have "rockets s' \<noteq> []"
    using update_Inr_fields(8) [OF s'] i by auto
  ultimately have "map_sum id (pos \<circ> hd \<circ> rockets) (update example_sim) = Inr (Point 300 700)"
    by (simp add: s' hd_conv_nth)
  moreover have "pos (spec_step (genome (hd (rockets example_sim)) !
                     (index example_sim mod length (genome (hd (rockets example_sim))))) 3
          (hd (rockets example_sim))) \<noteq> Point 300 700"
    using cos_radians_277
    by (simp add: example_sim_def example_rocket_def upt_conv_Cons spec_step_def Let_def)
  ultimately show ?thesis by simp
qed

text \<open>
  C1, amended: for every alive rocket, a tick that does not raise moves the rocket by 3
  along the heading it had before the tick and then adds the instruction
  \<open>genome[index % len(genome)]\<close> to the heading. The instruction of a tick therefore
  does not enter that tick's displacement; it is the heading of the next one.
\<close>

theorem update_moves_then_turns:
  assumes "update s = Inr s'" and "i < length (rockets s)" and "alive (rockets s ! i)"
  shows "angle (rockets s' ! i) =
           angle (rockets s ! i) +
           genome (rockets s ! i) ! (index s mod length (genome (rockets s ! i))) \<and>
         pos (rockets s' ! i) =
           Point (p_x (pos (rockets s ! i)) + cos (radians (of_int (angle (rockets s ! i)))) * 3)
                 (p_y (pos (rockets s ! i)) + sin (radians (of_int (angle (rockets s ! i)))) * 3)"
  using update_alive [OF assms] by simp

theorem update_moves_then_turns_witness:
  "\<exists>s'. update example_sim = Inr s' \<and> 0 < length (rockets example_sim) \<and>
      alive (rockets example_sim ! 0) \<and>
      angle (rockets s' ! 0) = 277 \<and> pos (rockets s' ! 0) = Point 300 700"
proof -
  obtain s' where s': "update example_sim = Inr s'"
    using example_sim_total ..
  have i: "0 < length (rockets example_sim)" and a: "alive (rockets example_sim ! 0)"
    by (simp_all add: example_sim_def example_rocket_def upt_conv_Cons)
  show ?thesis
    using update_moves_then_turns [OF s' i a] s' i a
    by (simp add: example_sim_def example_rocket_def upt_conv_Cons cos_radians_270 sin_radians_270)
qed

subsection \<open>C2: the size of the pool after breeding\<close>

text \<open>
  C2, as the specification states it: for every population of size N, selection and
  crossover produce a pool of \<open>E + 2 * floor((N - E) / 2)\<close> rockets, \<open>E = floor(0.2 * N)\<close>.
  For a population of five the elite is a single rocket; crossover looks for a second
  parent different from the first among the elite, and \<open>random.choice\<close> raises
  \<open>IndexError\<close> on the empty list. No pool is produced.
\<close>

theorem breeding_small_population_counterexample:
  "length (rockets small_sim) = 5 \<and> population small_sim = 5 \<and>
   breeding small_sim (rockets small_sim) example_globals = Inl IndexError \<and>
   next_gen small_sim example_globals = Inl IndexError"
proof -
  have l: "length (rockets small_sim) = 5" and p: "population small_sim = 5"
    by (simp_all add: small_sim_def example_sim_def)
  have "breeding small_sim (rockets small_sim) g = Inl IndexError" for g
    by (rule breeding_short) (simp_all add: l p)
  then show ?thesis
    using l p by (simp add: next_gen_breeding)
qed

text \<open>
  C2, amended: for every population of distinct rockets whose elite has at least two
  rockets (ten rockets or more), or for which crossover has no pair to make, selection
  and crossover return a pool of exactly \<open>E + 2 * floor((N - E) / 2)\<close> rockets (no
  offspring when \<open>N - E\<close> is below 2), where \<open>E = floor(0.2 * len(rockets))\<close> and N is the
  configured population. When N is also the number of rockets, which then is at least 10
  or at most 1, this is the formula of the specification. \<open>next_gen\<close> returns a
  population of that size and leaves the configured population as it was: nothing fills
  the pool up. The rockets of every state the program reaches are distinct, so the same
  holds of \<open>next_gen\<close> in every such state. (The witness: 100 rockets give 100; 101
  rockets give 100; the 100 rockets that are left of a configured population of 101 give
  100 again; one rocket gives none; the population of the end-to-end scenario gives 10.)
\<close>

theorem breeding_pool_size:
  assumes "distinct (map rid rs)"
    and "10 \<le> length rs \<or> population s \<le> int (length rs div 5) + 1"
  shows "(\<exists>pool g'. breeding s rs g = Inr (pool, g') \<and>
           length pool =
             length rs div 5 + 2 * nat ((population s - int (length rs div 5)) div 2) \<and>
           (population s = int (length rs) \<longrightarrow>
              length pool = length rs div 5 + 2 * ((length rs - length rs div 5) div 2)) \<and>
           (\<exists>s' g''. next_gen (s\<lparr>rockets := rs\<rparr>) g = Inr (s', g'') \<and>
              length (rockets s') = length pool \<and> population s' = population s)) \<and>
         int (length rs div 5) = \<lfloor>0.2 * real (length rs)\<rfloor> \<and>
         (reachable (sim, g0) \<and>
          (10 \<le> length (rockets sim) \<or>
           population sim \<le> int (length (rockets sim) div 5) + 1) \<longrightarrow>
            (\<exists>s' g'. next_gen sim g0 = Inr (s', g') \<and>
               length (rockets s') =
                 length (rockets sim) div 5 +
                 2 * nat ((population sim - int (length (rockets sim) div 5)) div 2)))"
proof -
  obtain pool g' where b: "breeding s rs g = Inr (pool, g')"
    and l: "length pool =
             length rs div 5 + 2 * nat ((population s - int (length rs div 5)) div 2)"
    using breeding_returns [OF assms, of g] by auto
  have eq: "nat ((int (length rs) - int (length rs div 5)) div 2) =
          (length rs - length rs div 5) div 2"
    by (simp add: nat_div_distrib of_nat_diff [symmetric] del: of_nat_diff)
  have ng: "\<exists>s' g''. next_gen (s\<lparr>rockets := rs\<rparr>) g = Inr (s', g'') \<and>
      length (rockets s') = length pool \<and> population s' = population s"
    using next_gen_returns [of "s\<lparr>rockets := rs\<rparr>" g] assms l by auto
  have first: "\<exists>pool g'. breeding s rs g = Inr (pool, g') \<and>
           length pool =
             length rs div 5 + 2 * nat ((population s - int (length rs div 5)) div 2) \<and>
           (population s = int (length rs) \<longrightarrow>
              length pool = length rs div 5 + 2 * ((length rs - length rs div 5) div 2)) \<and>
           (\<exists>s' g''. next_gen (s\<lparr>rockets := rs\<rparr>) g = Inr (s', g'') \<and>
              length (rockets s') = length pool \<and> population s' = population s)"
    using b l eq ng by (intro exI [of _ pool] exI [of _ g']) simp
  have second: "int (length rs div 5) = \<lfloor>0.2 * real (length rs)\<rfloor>"
    using floor_divide_of_nat_eq [of "length rs" 5, where ?'a = real] by simp
  have third: "\<exists>s' g'. next_gen sim g0 = Inr (s', g') \<and>
               length (rockets s') =
                 length (rockets sim) div 5 +
                 2 * nat ((population sim - int (length (rockets sim) div 5)) div 2)"
    if "reachable (sim, g0)"
      and "10 \<le> length (rockets sim) \<or>
           population sim \<le> int (length (rockets sim) div 5) + 1"
    using next_gen_returns [OF reachable_distinct [OF that(1)] that(2), of g0] by blast
  show ?thesis
    using first second third by blast
qed

theorem breeding_pool_size_witness:
  "(\<exists>pool g'. breeding (sized_sim 100 100) (rockets (sized_sim 100 100)) example_globals
       = Inr (pool, g') \<and> length pool = 100) \<and>
   (\<exists>pool g'. breeding (sized_sim 101 101) (rockets (sized_sim 101 101)) example_globals
       = Inr (pool, g') \<and> length pool = 100) \<and>
   (\<exists>pool g'. breeding (sized_sim 101 100) (rockets (sized_sim 101 100)) example_globals
       = Inr (pool, g') \<and> length pool = 100) \<and>
   (\<exists>pool g'. breeding (sized_sim 1 1) (rockets (sized_sim 1 1)) example_globals
       = Inr (pool, g') \<and> length pool = 0) \<and>
   reachable (restart example_config example_sim example_globals) \<and>
   (\<exists>s' g'. next_gen (fst (restart example_config example_sim example_globals))
               (snd (restart example_config example_sim example_globals)) = Inr (s', g') \<and>
            length (rockets s') = 10)"
proof -
  have r: "rockets (sized_sim n m) = map (example_rocket 7) [0..<m]" for n m
    by (simp add: sized_sim_def)
  have d: "distinct (map rid (rockets (sized_sim n m)))" for n m
    by (simp only: r example_ids distinct_upt)
  have l: "length (rockets (sized_sim n m)) = m" and p: "population (sized_sim n m) = n" for n m
    by (simp_all add: sized_sim_def)
  have "\<exists>pool g'. breeding (sized_sim 100 100) (rockets (sized_sim 100 100)) example_globals
       = Inr (pool, g') \<and> length pool = 100"
    using breeding_pool_size [OF d, of 100 100 "sized_sim 100 100" example_globals
        "sized_sim 100 100" example_globals]
    by (auto simp: l p)
  moreover have "\<exists>pool g'. breeding (sized_sim 101 101) (rockets (sized_sim 101 101))
       example_globals = Inr (pool, g') \<and> length pool = 100"
    using breeding_pool_size [OF d, of 101 101 "sized_sim 101 101" example_globals
        "sized_sim 101 101" example_globals]
    by (auto simp: l p)
  moreover have "\<exists>pool g'. breeding (sized_sim 101 100) (rockets (sized_sim 101 100))
       example_globals = Inr (pool, g') \<and> length pool = 100"
    using breeding_pool_size [OF d, of 101 100 "sized_sim 101 100" example_globals
        "sized_sim 101 100" example_globals]
    by (auto simp: l p)
  moreover have "\<exists>pool g'. breeding (sized_sim 1 1) (rockets (sized_sim 1 1))
       example_globals = Inr (pool, g') \<and> length pool = 0"
    using breeding_pool_size [OF d, of 1 1 "sized_sim 1 1" example_globals
        "sized_sim 1 1" example_globals]
    by (auto simp: l p)
  moreover have re: "reachable (restart example_config example_sim example_globals)"
    by (rule reachable.init)
  moreover have "\<exists>s' g'. next_gen (fst (restart example_config example_sim example_globals))
               (snd (restart example_config example_sim example_globals)) = Inr (s', g') \<and>
            length (rockets s') = 10"
  proof -
    obtain rs g1 where n: "new_rockets 10 example_globals = (rs, g1)"
      by (cases "new_rockets 10 example_globals")
    have lr: "length rs = 10"
      using new_rockets_genome_ok [OF n] by simp
    let ?st = "restart example_config example_sim example_globals"
    have f: "length (rockets (fst ?st)) = 10" "population (fst ?st) = 10"
      by (simp_all add: restart_def Let_def example_config_def n lr reset_rockets_def)
    show ?thesis
      using breeding_pool_size [OF d, of 100 100 "sized_sim 100 100" example_globals
          "fst ?st" "snd ?st"] re
      by (simp add: l p f)
  qed
  ultimately show ?thesis by blast
qed

subsection \<open>C3: selection\<close>

text \<open>
  C3: selection returns the first \<open>E = floor(0.2 * len(rockets))\<close> rockets of the list
  sorted by fitness, whatever the random draw is. That sorted list is in descending order
  of fitness and stable: rockets of equal fitness keep the order they had in the
  population. In the branch taken when the draw is at most 0.1 the function appends the
  last two rockets of the sorted list to that local list, and still returns the slice it
  took before.
\<close>

theorem selection_returns_top_elite:
  "fst (selection rs g) = take (length rs div 5) (sort_key (\<lambda>r. - fitness r) rs) \<and>
   int (length rs div 5) = \<lfloor>0.2 * real (length rs)\<rfloor> \<and>
   fst (selection rs g) = fst (selection rs g2) \<and>
   fst (selection_locals rs g) = fst (selection rs g) \<and>
   fst (snd (selection_locals rs g)) =
     (if fst (uniform 0.0 1.0 g) \<le> 0.1
      then sort_key (\<lambda>r. - fitness r) rs @
           drop (length rs - 2) (sort_key (\<lambda>r. - fitness r) rs)
      else sort_key (\<lambda>r. - fitness r) rs) \<and>
   sorted_wrt (\<lambda>a b. fitness b \<le> fitness a) (sort_key (\<lambda>r. - fitness r) rs) \<and>
   (\<forall>k. filter (\<lambda>r. fitness r = k) (sort_key (\<lambda>r. - fitness r) rs) =
        filter (\<lambda>r. fitness r = k) rs)"
proof -
  have "sorted (map (\<lambda>r. - fitness r) (sort_key (\<lambda>r. - fitness r) rs))"
    by (rule sorted_sort_key)
  then have desc: "sorted_wrt (\<lambda>a b. fitness b \<le> fitness a) (sort_key (\<lambda>r. - fitness r) rs)"
    by (simp add: sorted_map)
  have stable: "filter (\<lambda>r. fitness r = k) (sort_key (\<lambda>r. - fitness r) rs) =
      filter (\<lambda>r. fitness r = k) rs" for k
    using sort_key_stable [of "\<lambda>r. - fitness r" "- k" rs] by simp
  have locals: "fst (selection_locals rs g) = fst (selection rs g)"
    by (simp add: selection_def split: prod.splits)
  have aug: "fst (snd (selection_locals rs g)) =
     (if fst (uniform 0.0 1.0 g) \<le> 0.1
      then sort_key (\<lambda>r. - fitness r) rs @
           drop (length rs - 2) (sort_key (\<lambda>r. - fitness r) rs)
      else sort_key (\<lambda>r. - fitness r) rs)"
    by (simp add: selection_locals_def Let_def split: prod.splits)
  have elite: "int (length rs div 5) = \<lfloor>0.2 * real (length rs)\<rfloor>"
    using floor_divide_of_nat_eq [of "length rs" 5, where ?'a = real] by simp
  show ?thesis
    using desc stable locals aug elite by (simp add: selection_eq)
qed

theorem selection_returns_top_elite_witness:
  "map rid (fst (selection tied_rockets example_globals)) = [1, 3] \<and>
   map rid (fst (selection tied_rockets (example_globals\<lparr>rnd := \<lambda>i. 2 ^ 52\<rparr>))) = [1, 3] \<and>
   fst (uniform 0.0 1.0 example_globals) \<le> 0.1 \<and>
   \<not> fst (uniform 0.0 1.0 (example_globals\<lparr>rnd := \<lambda>i. 2 ^ 52\<rparr>)) \<le> 0.1 \<and>
   map rid (fst (snd (selection_locals tied_rockets example_globals))) =
     [1, 3, 7, 6, 2, 4, 9, 0, 8, 5, 8, 5]"
proof -
  have l: "length tied_rockets = 10"
    by (simp add: tied_rockets_def)
  have u1: "fst (uniform 0.0 1.0 example_globals) \<le> 0.1"
    by (simp add: uniform_def next_draw_def example_globals_def)
  have u2: "\<not> fst (uniform 0.0 1.0 (example_globals\<lparr>rnd := \<lambda>i. 2 ^ 52\<rparr>)) \<le> 0.1"
    by (simp add: uniform_def next_draw_def example_globals_def)
  have "map rid (fst (selection tied_rockets g)) = [1, 3]" for g
    using selection_returns_top_elite [of tied_rockets g g] tied_sorted
    by (simp add: l take_map [symmetric] del: take_map)
  moreover have "map rid (fst (snd (selection_locals tied_rockets example_globals))) =
     [1, 3, 7, 6, 2, 4, 9, 0, 8, 5, 8, 5]"
    using selection_returns_top_elite [of tied_rockets example_globals example_globals]
      tied_sorted u1
    by (simp add: l drop_map [symmetric] del: drop_map)
  ultimately show ?thesis
    using u1 u2 by simp
qed

subsection \<open>C4: the fitness formula\<close>

text \<open>
  C4, as the specification states it: every fitness pass assigns
  \<open>100 - (distance(pos, goal) / distance(start, goal)) * 100\<close>, and the fitness equals 0
  exactly when the position is the start point. The value depends on the position only
  through its distance to the goal: in the example simulation a rocket at \<open>(496, 722)\<close>
  is as far from the goal \<open>(300, 50)\<close> as the start point \<open>(300, 750)\<close> is, and has
  fitness 0 without standing on the start point. And when start and goal are the same
  point the pass assigns nothing: it raises \<open>ZeroDivisionError\<close>.
\<close>

theorem fitness_zero_off_start_counterexample:
  "map_sum id (map fitness)
     (fitness_pass example_sim [(example_rocket 7 0)\<lparr>pos := Point 496 722\<rparr>]) = Inr [0] \<and>
   pos ((example_rocket 7 0)\<lparr>pos := Point 496 722\<rparr>) \<noteq> start example_sim \<and>
   fitness_pass (example_sim\<lparr>goal := start example_sim\<rparr>) [example_rocket 7 0] =
     Inl ZeroDivisionError"
proof -
  have "start example_sim \<noteq> goal example_sim"
    by (simp add: example_sim_def)
  then have "fitness_pass example_sim [(example_rocket 7 0)\<lparr>pos := Point 496 722\<rparr>] =
      Inr [(example_rocket 7 0)\<lparr>pos := Point 496 722, fitness := 0\<rparr>]"
    by (simp add: fitness_pass_ok)
      (simp add: example_sim_def distance_def hypot_196_672 hypot_0_left)
  moreover have "fitness_pass (example_sim\<lparr>goal := start example_sim\<rparr>) [example_rocket 7 0] =
     Inl ZeroDivisionError"
    by (rule fitness_pass_zero) simp_all
  ultimately show ?thesis
    by (simp add: example_sim_def)
qed

text \<open>
  C4, amended: when start and goal differ, the fitness pass returns, and gives every
  rocket the fitness \<open>100 - (distance(pos, goal) / distance(start, goal)) * 100\<close>. That
  value is 0 for a rocket standing on the start point, and for every rocket as far from
  the goal as the start point is; it is negative for a rocket farther from the goal than
  the start point is; and it is non-increasing in the distance to the goal: of two
  rockets, the one that is not farther from the goal does not have the smaller fitness.
  (Strict decrease is not stated: the program rounds the three operations of the
  expression, and two distances that differ by little can get the same fitness.)
\<close>

theorem fitness_formula:
  assumes "start s \<noteq> goal s"
  shows "\<exists>rs'. fitness_pass s rs = Inr rs' \<and> length rs' = length rs \<and>
    (\<forall>i<length rs.
       rs' ! i = (rs ! i)\<lparr>fitness :=
         100 - (distance (pos (rs ! i)) (goal s) / distance (start s) (goal s)) * 100\<rparr> \<and>
       (pos (rs ! i) = start s \<longrightarrow> fitness (rs' ! i) = 0) \<and>
       (distance (pos (rs ! i)) (goal s) = distance (start s) (goal s) \<longrightarrow>
          fitness (rs' ! i) = 0) \<and>
       (distance (start s) (goal s) < distance (pos (rs ! i)) (goal s) \<longrightarrow>
          fitness (rs' ! i) < 0) \<and>
       (\<forall>j<length rs.
          distance (pos (rs ! i)) (goal s) \<le> distance (pos (rs ! j)) (goal s) \<longrightarrow>
          fitness (rs' ! j) \<le> fitness (rs' ! i)))"
proof -
  let ?T = "distance (start s) (goal s)"
  have T: "0 < ?T"
    using assms distance_nonneg [of "start s" "goal s"] distance_eq_0_iff [of "start s" "goal s"]
    by simp
  have mono: "a \<le> b \<Longrightarrow> 100 - b / ?T * 100 \<le> 100 - a / ?T * 100" for a b
    using T by (simp add: divide_le_cancel)
  have far: "?T < a \<Longrightarrow> 100 - a / ?T * 100 < 0" for a
    using T by (simp add: field_simps)
  show ?thesis
    using T mono far by (simp add: fitness_pass_ok [OF assms])
qed

theorem fitness_formula_witness:
  "start example_sim \<noteq> goal example_sim \<and>
   (\<exists>rs'. fitness_pass example_sim
            [(example_rocket 7 0)\<lparr>pos := Point 300 750\<rparr>, example_rocket 7 1,
             (example_rocket 7 2)\<lparr>pos := Point 300 800\<rparr>,
             (example_rocket 7 3)\<lparr>pos := Point 496 722\<rparr>] = Inr rs' \<and>
          map fitness rs' = [0, 47 / 7, - (50 / 7), 0])"
proof -
  have h: "start example_sim \<noteq> goal example_sim"
    by (simp add: example_sim_def)
  let ?rs = "[(example_rocket 7 0)\<lparr>pos := Point 300 750\<rparr>, example_rocket 7 1,
             (example_rocket 7 2)\<lparr>pos := Point 300 800\<rparr>,
             (example_rocket 7 3)\<lparr>pos := Point 496 722\<rparr>]"
  obtain rs' where p: "fitness_pass example_sim ?rs = Inr rs'" and l: "length rs' = 4"
    and f: "\<forall>i<4. rs' ! i = (?rs ! i)\<lparr>fitness :=
         100 - (distance (pos (?rs ! i)) (goal example_sim) /
                distance (start example_sim) (goal example_sim)) * 100\<rparr>"
    using fitness_formula [OF h, of ?rs] by auto
  have "fitness (rs' ! 0) = 0" "fitness (rs' ! 1) = 47 / 7" "fitness (rs' ! 2) = - (50 / 7)"
    "fitness (rs' ! 3) = 0"
    using f
    by (simp_all add: example_sim_def example_rocket_def distance_def hypot_0_left
        hypot_196_672)
  then have "map fitness rs' = [0, 47 / 7, - (50 / 7), 0]"
    using l
    by (auto simp: list_eq_iff_nth_eq nth_Cons' less_Suc_eq numeral_2_eq_2 numeral_3_eq_3
        eval_nat_numeral)
  with h p show ?thesis by auto
qed

subsection \<open>C5: the genome invariant\<close>

text \<open>
  C5: a genome has 300 genes, each in \<open>[-7, 7]\<close>. This holds for every rocket the
  constructor makes; crossover and mutation give rockets with such genomes when given
  rockets with such genomes (the split index that crossover draws for such a parent lies
  in \<open>[0, 300]\<close>); and it holds for every rocket of every state the program reaches, in
  every generation.
\<close>

theorem genome_invariant:
  "genome_ok (fst (Rocket_init g)) \<and>
   ((\<forall>r\<in>set rs. genome_ok r) \<longrightarrow>
      (\<forall>pool g'. crossover s rs g = Inr (pool, g') \<longrightarrow> (\<forall>r\<in>set pool. genome_ok r)) \<and>
      (\<forall>r\<in>set (fst (mutation rs g)). genome_ok r)) \<and>
   (genome_ok p \<longrightarrow>
      0 \<le> fst (randint 0 (int (length (genome p))) g) \<and>
      fst (randint 0 (int (length (genome p))) g) \<le> 300) \<and>
   (reachable st \<longrightarrow>
      (\<forall>r\<in>set (rockets (fst st)).
         length (genome r) = 300 \<and> (\<forall>v\<in>set (genome r). - 7 \<le> v \<and> v \<le> 7)))"
proof -
  have "\<forall>r\<in>set (fst (mutation rs g)). genome_ok r" if "\<forall>r\<in>set rs. genome_ok r"
    using mutation_result [of rs g "fst (mutation rs g)" "snd (mutation rs g)"] that by simp
  moreover have "\<forall>r\<in>set (rockets (fst st)).
         length (genome r) = 300 \<and> (\<forall>v\<in>set (genome r). - 7 \<le> v \<and> v \<le> 7)"
    if "reachable st"
    using reachable_genome_ok [OF that] by (simp add: genome_ok_iff)
  moreover have "0 \<le> fst (randint 0 (int (length (genome p))) g) \<and>
      fst (randint 0 (int (length (genome p))) g) \<le> 300" if "genome_ok p"
    using randint_range [of 0 "int (length (genome p))" g] that by (simp add: genome_ok_def)
  ultimately show ?thesis
    using Rocket_init_genome_ok crossover_genome_ok by blast
qed

theorem genome_invariant_witness:
  "list_all genome_ok [example_rocket 7 0, example_rocket 7 1] \<and>
   (\<exists>pool g'. crossover example_sim [example_rocket 7 0, example_rocket 7 1] example_globals
        = Inr (pool, g') \<and> length pool = 10 \<and> list_all genome_ok pool) \<and>
   list_all genome_ok
     (fst (mutation [example_rocket 7 0, example_rocket 7 1] example_globals)) \<and>
   reachable (restart example_config example_sim example_globals) \<and>
   list_all (\<lambda>r. length (genome r) = 300 \<and> list_all (\<lambda>v. - 7 \<le> v \<and> v \<le> 7) (genome r))
     (rockets (fst (restart example_config example_sim example_globals)))"
proof -
  let ?rs = "[example_rocket 7 0, example_rocket 7 1]"
  have ok: "\<forall>r\<in>set ?rs. genome_ok r"
    by (simp add: example_genome_ok)
  obtain pool g' where c: "crossover example_sim ?rs example_globals = Inr (pool, g')"
    and l: "length pool = 10"
    using crossover_total [of ?rs example_sim example_globals]
    by (auto simp: example_rocket_def example_sim_def)
  have r: "reachable (restart example_config example_sim example_globals)"
    by (rule reachable.init)
  note inv = genome_invariant
    [of example_globals ?rs example_sim "example_rocket 7 0"
      "restart example_config example_sim example_globals"]
  have "list_all genome_ok pool"
    using inv ok c by (simp add: list_all_iff)
  moreover have "list_all genome_ok (fst (mutation ?rs example_globals))"
    using inv ok unfolding list_all_iff by blast
  moreover have "list_all
     (\<lambda>r. length (genome r) = 300 \<and> list_all (\<lambda>v. - 7 \<le> v \<and> v \<le> 7) (genome r))
     (rockets (fst (restart example_config example_sim example_globals)))"
    using inv r unfolding list_all_iff by blast
  ultimately show ?thesis
    using ok c l r by (simp add: list_all_iff)
qed

subsection \<open>C6: the solved freeze\<close>

text \<open>
  C6, as the specification states it: once an agent is within distance 10 of the goal
  there is no further tick and no breeding until a restart, and the freeze has priority
  over the breeding trigger when both conditions hold on the same iteration. The loop
  body tests the alive count first. In \<open>solved_dead_sim\<close> the ten rockets are within
  distance 10 of the goal and dead: the iteration calls \<open>next_gen\<close>, and then, the new
  population standing far from the goal, \<open>update\<close> and \<open>draw\<close>.
\<close>

theorem breeding_before_solved_counterexample:
  "found_solution solved_dead_sim \<and> alive_rockets solved_dead_sim = 0 \<and>
   fst (main_body solved_dead_sim example_globals) = [NextGen, Update, Draw]"
  using solved_dead_sim_state solved_dead_sim_calls by simp

text \<open>
  C6, amended: while some agent is within distance 10 of the goal and at least one agent
  is alive, the loop body calls nothing and leaves the simulation and the random
  generator as they are; a whole iteration whose events are neither the restart key nor
  a goal relocation changes at most the frame rate, so the freeze lasts until a restart
  or a relocation of the goal. The breeding trigger is tested before the solved
  condition: when no agent is alive, \<open>next_gen\<close> is called whether or not an agent is
  within distance 10 of the goal. A tick is made exactly when the solved condition does
  not hold of the population the test sees, which after breeding is the new one.
\<close>

theorem solved_freeze_while_alive:
  "(found_solution sim \<and> alive_rockets sim \<noteq> 0 \<longrightarrow>
      main_body sim g = ([], Inr (sim, g)) \<and>
      ((\<forall>ev\<in>set evs. ev \<noteq> KEYUP K_r \<and> (\<forall>p. ev \<noteq> MOUSEBUTTONUP 3 p)) \<longrightarrow>
         (\<exists>d' f'. main_iteration cnf evs (d, sim, g) = ([], Inr (d', sim\<lparr>fps := f'\<rparr>, g))))) \<and>
   (alive_rockets sim = 0 \<longrightarrow> NextGen \<in> set (fst (main_body sim g))) \<and>
   (Update \<in> set (fst (main_body sim g)) \<longleftrightarrow>
      (if alive_rockets sim = 0
       then \<exists>sim1 g1. next_gen sim g = Inr (sim1, g1) \<and> \<not> found_solution sim1
       else \<not> found_solution sim))"
  using main_body_frozen [of sim g] main_iteration_frozen [of sim evs cnf d g]
    main_body_NextGen [of sim g] main_body_Update [of sim g]
  by blast

theorem solved_freeze_while_alive_witness:
  "found_solution frozen_sim \<and> alive_rockets frozen_sim = 10 \<and>
   main_body frozen_sim example_globals = ([], Inr (frozen_sim, example_globals)) \<and>
   (\<exists>d' f'. main_iteration example_config [KEYUP K_a, OTHER, MOUSEBUTTONUP 1 (5, 5)]
               (False, frozen_sim, example_globals) =
             ([], Inr (d', frozen_sim\<lparr>fps := f'\<rparr>, example_globals))) \<and>
   alive_rockets solved_dead_sim = 0 \<and>
   NextGen \<in> set (fst (main_body solved_dead_sim example_globals))"
  using solved_freeze_while_alive [of frozen_sim example_globals
      "[KEYUP K_a, OTHER, MOUSEBUTTONUP 1 (5, 5)]" example_config False]
    solved_freeze_while_alive [of solved_dead_sim example_globals "[]" example_config False]
    frozen_sim_state solved_dead_sim_state
  by simp

subsection \<open>C7: when breeding is invoked\<close>

text \<open>
  C7: the loop body calls \<open>next_gen\<close> if and only if the count of alive rockets is 0,
  that is if and only if no rocket is alive; the same holds of a whole iteration, for
  the count after its events. When the count is 0, what the body leaves is what
  \<open>next_gen\<close> returned, passed through the solved test and the tick that may follow, or
  the exception \<open>next_gen\<close> raised. When the count is not 0 the body is the solved test
  and the tick alone: the random generator, the ids and the genomes of the rockets are
  as before, and so is the generation counter, which grows by one in exactly the other
  case. A call of \<open>next_gen\<close> that returns has run selection, crossover and mutation,
  has reset position, heading and the alive flag of every rocket, has incremented the
  generation counter and has set the tick index to 0. A whole iteration returns the
  calls and the result of the body, run on the state its events leave.
\<close>

theorem breeding_iff_nobody_alive:
  "(NextGen \<in> set (fst (main_body sim g)) \<longleftrightarrow> alive_rockets sim = 0) \<and>
   (alive_rockets sim = 0 \<longleftrightarrow> (\<forall>r\<in>set (rockets sim). \<not> alive r)) \<and>
   (NextGen \<in> set (fst (main_iteration cnf evs st)) \<longleftrightarrow>
      alive_rockets (fst (snd (foldl (handle_event cnf) st evs))) = 0) \<and>
   (\<forall>sim' g'. snd (main_body sim g) = Inr (sim', g') \<longrightarrow>
      generation sim' =
        (if alive_rockets sim = 0 then generation sim + 1 else generation sim)) \<and>
   (\<forall>sim1 g1. next_gen sim g = Inr (sim1, g1) \<longrightarrow>
      index sim1 = 0 \<and> generation sim1 = generation sim + 1 \<and>
      (\<forall>r\<in>set (rockets sim1).
         alive r \<and> angle r = 270 \<and>
         pos r = Point (p_x (start sim)) (p_y (start sim) + 3 - 50)) \<and>
      (\<exists>rs1 g2 rs2 g3 rs3.
         selection (rockets sim) g = (rs1, g2) \<and> crossover sim rs1 g2 = Inr (rs2, g3) \<and>
         mutation rs2 g3 = (rs3, g1) \<and> rockets sim1 = reset_rockets sim rs3)) \<and>
   (alive_rockets sim = 0 \<longrightarrow>
      (\<forall>e. next_gen sim g = Inl e \<longrightarrow> main_body sim g = ([NextGen], Inl e)) \<and>
      (\<forall>sim1 g1. next_gen sim g = Inr (sim1, g1) \<longrightarrow>
         main_body sim g = (NextGen # fst (update_draw sim1 g1), snd (update_draw sim1 g1)) \<and>
         (found_solution sim1 \<longrightarrow> main_body sim g = ([NextGen], Inr (sim1, g1))) \<and>
         (\<forall>sim2 sim3. \<not> found_solution sim1 \<and> update sim1 = Inr sim2 \<and> draw sim2 = Inr sim3 \<longrightarrow>
            main_body sim g = ([NextGen, Update, Draw], Inr (sim3, g1))))) \<and>
   (alive_rockets sim \<noteq> 0 \<longrightarrow>
      main_body sim g = update_draw sim g \<and>
      (found_solution sim \<longrightarrow> main_body sim g = ([], Inr (sim, g))) \<and>
      (\<forall>sim2 sim3. \<not> found_solution sim \<and> update sim = Inr sim2 \<and> draw sim2 = Inr sim3 \<longrightarrow>
         main_body sim g = ([Update, Draw], Inr (sim3, g))) \<and>
      (\<forall>sim' g'. snd (main_body sim g) = Inr (sim', g') \<longrightarrow>
         g' = g \<and> map rid (rockets sim') = map rid (rockets sim) \<and>
         map genome (rockets sim') = map genome (rockets sim))) \<and>
   (\<forall>d1 s1 g1. foldl (handle_event cnf) st evs = (d1, s1, g1) \<longrightarrow>
      fst (main_iteration cnf evs st) = fst (main_body s1 g1) \<and>
      (\<forall>e. snd (main_body s1 g1) = Inl e \<longrightarrow> snd (main_iteration cnf evs st) = Inl e) \<and>
      (\<forall>sim' g'. snd (main_body s1 g1) = Inr (sim', g') \<longrightarrow>
         snd (main_iteration cnf evs st) = Inr (d1, sim', g')))"
proof -
  have pipeline: "index sim1 = 0 \<and> generation sim1 = generation sim + 1 \<and>
      (\<forall>r\<in>set (rockets sim1).
         alive r \<and> angle r = 270 \<and>
         pos r = Point (p_x (start sim)) (p_y (start sim) + 3 - 50)) \<and>
      (\<exists>rs1 g2 rs2 g3 rs3.
         selection (rockets sim) g = (rs1, g2) \<and> crossover sim rs1 g2 = Inr (rs2, g3) \<and>
         mutation rs2 g3 = (rs3, g1) \<and> rockets sim1 = reset_rockets sim rs3)"
    if "next_gen sim g = Inr (sim1, g1)" for sim1 g1
    using next_gen_result(1,2,8,9) [OF that] by simp
  have old: "(NextGen \<in> set (fst (main_body sim g)) \<longleftrightarrow> alive_rockets sim = 0) \<and>
   (alive_rockets sim = 0 \<longleftrightarrow> (\<forall>r\<in>set (rockets sim). \<not> alive r)) \<and>
   (NextGen \<in> set (fst (main_iteration cnf evs st)) \<longleftrightarrow>
      alive_rockets (fst (snd (foldl (handle_event cnf) st evs))) = 0) \<and>
   (\<forall>sim' g'. snd (main_body sim g) = Inr (sim', g') \<longrightarrow>
      generation sim' =
        (if alive_rockets sim = 0 then generation sim + 1 else generation sim))"
    using main_body_NextGen [of sim g] alive_rockets_0_iff [of sim] main_body_generation [of sim g]
    by (simp add: main_iteration_calls main_body_NextGen)
  have dead: "(\<forall>e. next_gen sim g = Inl e \<longrightarrow> main_body sim g = ([NextGen], Inl e)) \<and>
      (\<forall>sim1 g1. next_gen sim g = Inr (sim1, g1) \<longrightarrow>
         main_body sim g = (NextGen # fst (update_draw sim1 g1), snd (update_draw sim1 g1)) \<and>
         (found_solution sim1 \<longrightarrow> main_body sim g = ([NextGen], Inr (sim1, g1))) \<and>
         (\<forall>sim2 sim3. \<not> found_solution sim1 \<and> update sim1 = Inr sim2 \<and> draw sim2 = Inr sim3 \<longrightarrow>
            main_body sim g = ([NextGen, Update, Draw], Inr (sim3, g1))))"
    if "alive_rockets sim = 0"
    using main_body_dead_raise [OF that] main_body_dead_bred [OF that]
    by (auto simp: update_draw_cases)
  have live: "main_body sim g = update_draw sim g \<and>
      (found_solution sim \<longrightarrow> main_body sim g = ([], Inr (sim, g))) \<and>
      (\<forall>sim2 sim3. \<not> found_solution sim \<and> update sim = Inr sim2 \<and> draw sim2 = Inr sim3 \<longrightarrow>
         main_body sim g = ([Update, Draw], Inr (sim3, g))) \<and>
      (\<forall>sim' g'. snd (main_body sim g) = Inr (sim', g') \<longrightarrow>
         g' = g \<and> map rid (rockets sim') = map rid (rockets sim) \<and>
         map genome (rockets sim') = map genome (rockets sim))"
    if "alive_rockets sim \<noteq> 0"
    using main_body_alive [OF that] update_draw_frame [of sim g]
    by (auto simp: update_draw_cases)
  have whole: "fst (main_iteration cnf evs st) = fst (main_body s1 g1) \<and>
      (\<forall>e. snd (main_body s1 g1) = Inl e \<longrightarrow> snd (main_iteration cnf evs st) = Inl e) \<and>
      (\<forall>sim' g'. snd (main_body s1 g1) = Inr (sim', g') \<longrightarrow>
         snd (main_iteration cnf evs st) = Inr (d1, sim', g'))"
    if "foldl (handle_event cnf) st evs = (d1, s1, g1)" for d1 s1 g1
    using main_iteration_result [OF that] by blast
  show ?thesis
    using old pipeline dead live whole by blast
qed

theorem breeding_iff_nobody_alive_witness:
  "alive_rockets example_sim = 10 \<and>
   NextGen \<notin> set (fst (main_body example_sim example_globals)) \<and>
   main_body example_sim example_globals = update_draw example_sim example_globals \<and>
   list_all (\<lambda>r. \<not> alive r) (rockets solved_dead_sim) \<and>
   NextGen \<in> set (fst (main_body solved_dead_sim example_globals)) \<and>
   (\<exists>sim1 g1. next_gen solved_dead_sim example_globals = Inr (sim1, g1) \<and>
      main_body solved_dead_sim example_globals =
        (NextGen # fst (update_draw sim1 g1), snd (update_draw sim1 g1)) \<and>
      index sim1 = 0 \<and> generation sim1 = 2 \<and> length (rockets sim1) = 10 \<and>
      list_all (\<lambda>r. alive r \<and> angle r = 270 \<and> pos r = Point 300 703) (rockets sim1))"
proof -
  have r: "rockets solved_dead_sim =
      map (\<lambda>i. (example_rocket 0 i)\<lparr>pos := Point 300 19, alive := False\<rparr>) [0..<10]"
    by (simp add: solved_dead_sim_def)
  have ids: "map rid (rockets solved_dead_sim) = [0..<10]"
    unfolding r by (simp add: example_rocket_def comp_def map_idI)
  have d: "distinct (map rid (rockets solved_dead_sim))"
    by (simp only: ids distinct_upt)
  have fields: "population solved_dead_sim = 10" "start solved_dead_sim = Point 300 750"
    "generation solved_dead_sim = 1" "length (rockets solved_dead_sim) = 10"
    by (simp_all add: solved_dead_sim_def example_sim_def)
  have ten: "10 \<le> length (rockets solved_dead_sim)"
    by (simp add: fields)
  obtain sim1 g1 where ng: "next_gen solved_dead_sim example_globals = Inr (sim1, g1)"
    and l1: "length (rockets sim1) = 10"
    using next_gen_total [OF ten d, of example_globals] by (auto simp: fields)
  note dead = breeding_iff_nobody_alive [of solved_dead_sim example_globals example_config "[]"
      "(False, solved_dead_sim, example_globals)"]
  note live = breeding_iff_nobody_alive [of example_sim example_globals example_config "[]"
      "(False, example_sim, example_globals)"]
  have a: "NextGen \<notin> set (fst (main_body example_sim example_globals)) \<and>
      main_body example_sim example_globals = update_draw example_sim example_globals"
    using live example_sim_alive by (simp add: update_draw_calls)
  have b: "list_all (\<lambda>r. \<not> alive r) (rockets solved_dead_sim) \<and>
      NextGen \<in> set (fst (main_body solved_dead_sim example_globals))"
    using dead solved_dead_sim_state(2) by (simp add: list_all_iff)
  have c: "main_body solved_dead_sim example_globals =
        (NextGen # fst (update_draw sim1 g1), snd (update_draw sim1 g1)) \<and>
      index sim1 = 0 \<and> generation sim1 = 2 \<and>
      list_all (\<lambda>r. alive r \<and> angle r = 270 \<and> pos r = Point 300 703) (rockets sim1)"
    using dead solved_dead_sim_state(2) ng by (simp add: list_all_iff fields)
  show ?thesis
    using a b c ng l1 example_sim_alive by blast
qed

subsection \<open>C8: dead rockets are frozen\<close>

text \<open>
  C8: a rocket that is not alive has the same position and the same heading after any
  number of consecutive ticks, and is still not alive.
\<close>

theorem dead_rocket_frozen:
  assumes "updates n s = Inr s'" and "i < length (rockets s)" and "\<not> alive (rockets s ! i)"
  shows "pos (rockets s' ! i) = pos (rockets s ! i) \<and>
         angle (rockets s' ! i) = angle (rockets s ! i) \<and>
         \<not> alive (rockets s' ! i)"
  using updates_dead [OF assms] by simp

theorem dead_rocket_frozen_witness:
  "\<exists>s'. updates 5 (example_sim\<lparr>rockets := [(example_rocket 7 0)\<lparr>alive := False\<rparr>,
                                              example_rocket 7 1]\<rparr>) = Inr s' \<and>
      pos (rockets s' ! 0) = Point 300 703 \<and> angle (rockets s' ! 0) = 270 \<and>
      \<not> alive (rockets s' ! 0)"
proof -
  let ?s = "example_sim\<lparr>rockets := [(example_rocket 7 0)\<lparr>alive := False\<rparr>, example_rocket 7 1]\<rparr>"
  have "\<exists>s'. updates 5 ?s = Inr s'"
    by (rule updates_total) (simp_all add: example_sim_def example_rocket_def)
  then obtain s' where s': "updates 5 ?s = Inr s'" ..
  have i: "0 < length (rockets ?s)" and d: "\<not> alive (rockets ?s ! 0)"
    by simp_all
  show ?thesis
    using dead_rocket_frozen [OF s' i d] s'
    by (simp add: example_rocket_def)
qed

subsection \<open>C9: the collision pass\<close>

text \<open>
  C9: the collision pass leaves every position as it is, and after it a rocket is alive
  exactly when it was alive before and its position is neither left of 0, right of the
  window's width, above 0, below the window's height, nor inside an obstacle. Within a
  tick the test is made on the position after the move and on nothing else: a rocket
  is alive after \<open>update\<close> exactly when it was alive before and its new position passes
  the test. (The witness: a rocket that crosses the thin wall between two ticks stays
  alive, the one that lands in it dies.)
\<close>

theorem check_collision_point_sampled:
  "length (rockets (check_collision s)) = length (rockets s) \<and>
   (\<forall>i<length (rockets s).
      pos (rockets (check_collision s) ! i) = pos (rockets s ! i) \<and>
      (alive (rockets (check_collision s) ! i) \<longleftrightarrow>
         alive (rockets s ! i) \<and>
         \<not> (p_x (pos (rockets s ! i)) < 0 \<or>
            p_x (pos (rockets s ! i)) > of_int (width (win_size s)) \<or>
            p_y (pos (rockets s ! i)) < 0 \<or>
            p_y (pos (rockets s ! i)) > of_int (height (win_size s)) \<or>
            (\<exists>obs\<in>set (obstacles s). collidepoint obs (pos (rockets s ! i)))))) \<and>
   (\<forall>s'. update s = Inr s' \<longrightarrow>
      (\<forall>i<length (rockets s).
         alive (rockets s' ! i) \<longleftrightarrow>
           alive (rockets s ! i) \<and>
           \<not> (p_x (pos (rockets s' ! i)) < 0 \<or>
              p_x (pos (rockets s' ! i)) > of_int (width (win_size s)) \<or>
              p_y (pos (rockets s' ! i)) < 0 \<or>
              p_y (pos (rockets s' ! i)) > of_int (height (win_size s)) \<or>
              (\<exists>obs\<in>set (obstacles s). collidepoint obs (pos (rockets s' ! i))))))"
  using update_alive_after [of s]
  by (simp add: check_collision_def check_collision_rocket_eq)

theorem check_collision_point_sampled_witness:
  "\<exists>s'. update wall_sim = Inr s' \<and>
      map pos (rockets wall_sim) = [Point 300 403, Point 300 405] \<and>
      map pos (rockets s') = [Point 300 400, Point 300 402] \<and>
      map alive (rockets s') = [True, False]"
proof -
  obtain s' where s': "update wall_sim = Inr s'"
    and p: "map pos (rockets s') = [Point 300 400, Point 300 402]"
    using wall_sim_update by auto
  have l: "length (rockets s') = 2"
    using update_Inr_fields(8) [OF s'] by (simp add: wall_sim_def)
  from p have p0: "pos (rockets s' ! 0) = Point 300 400" and p1: "pos (rockets s' ! 1) = Point 300 402"
    using l by (auto simp: list_eq_iff_nth_eq nth_Cons' less_Suc_eq numeral_2_eq_2 split: if_splits)
  have "\<forall>i<length (rockets wall_sim).
         alive (rockets s' ! i) \<longleftrightarrow>
           alive (rockets wall_sim ! i) \<and>
           \<not> (p_x (pos (rockets s' ! i)) < 0 \<or>
              p_x (pos (rockets s' ! i)) > of_int (width (win_size wall_sim)) \<or>
              p_y (pos (rockets s' ! i)) < 0 \<or>
              p_y (pos (rockets s' ! i)) > of_int (height (win_size wall_sim)) \<or>
              (\<exists>obs\<in>set (obstacles wall_sim). collidepoint obs (pos (rockets s' ! i))))"
    using check_collision_point_sampled [of wall_sim] s' by blast
  then have "alive (rockets s' ! 0)" and "\<not> alive (rockets s' ! 1)"
    using p0 p1
    by (simp_all add: wall_sim_def example_sim_def example_rocket_def collidepoint_def)
  then have "map alive (rockets s') = [True, False]"
    using l by (auto simp: list_eq_iff_nth_eq nth_Cons' less_Suc_eq numeral_2_eq_2)
  with s' p show ?thesis
    by (auto simp: wall_sim_def)
qed

subsection \<open>C10: the unguarded division of the fitness pass\<close>

text \<open>
  C10: when start and goal differ, the fitness of every rocket is defined and the pass
  returns; when start and goal are the same point, the fitness of every rocket raises
  \<open>ZeroDivisionError\<close>, and so does the pass over any non-empty list of rockets.
\<close>

theorem fitness_division_by_zero:
  "(start s \<noteq> goal s \<longrightarrow>
      (\<exists>r'. fitness_rocket s (distance (start s) (goal s)) r = Inr r') \<and>
      (\<exists>rs'. fitness_pass s rs = Inr rs')) \<and>
   (start s = goal s \<longrightarrow>
      fitness_rocket s (distance (start s) (goal s)) r = Inl ZeroDivisionError \<and>
      (rs \<noteq> [] \<longrightarrow> fitness_pass s rs = Inl ZeroDivisionError))"
  by (simp add: fitness_pass_ok fitness_pass_zero fitness_rocket_def distance_eq_0_iff Let_def)

theorem fitness_division_by_zero_witness:
  "start example_sim \<noteq> goal example_sim \<and>
   (\<exists>rs'. fitness_pass example_sim (rockets example_sim) = Inr rs') \<and>
   start (example_sim\<lparr>goal := Point 300 750\<rparr>) = goal (example_sim\<lparr>goal := Point 300 750\<rparr>) \<and>
   rockets example_sim \<noteq> [] \<and>
   fitness_pass (example_sim\<lparr>goal := Point 300 750\<rparr>) (rockets example_sim) =
     Inl ZeroDivisionError"
  using fitness_division_by_zero [of example_sim "example_rocket 7 0" "rockets example_sim"]
    fitness_division_by_zero [of "example_sim\<lparr>goal := Point 300 750\<rparr>" "example_rocket 7 0"
      "rockets example_sim"]
  by (simp add: example_sim_def)

end
